theory Spec2Isabelle
  imports Complex_Main "HOL-Library.AList"
begin

section \<open>The chat socket of mixer-chat\<close>

text \<open>
  The development embeds the class \<open>ChatSocket\<close> (the version with the keepalive
  probe), \<open>Reply\<close> and the helpers \<open>getDefaults\<close> and \<open>timeout\<close>.

  The object's fields are a record; the parts of the JavaScript runtime that the class
  relies on are further fields of the same record: the armed timers, the transports
  created so far and which of them have listeners attached, the one-shot listeners the
  class registers on itself, the promises of the calls in flight, and the queue of promise
  reactions that are due. Everything the class does to the outside (notifications,
  transport operations, settling a promise it handed to a caller, an exception leaving
  a method) is appended to a trace.

  Every macro task of the runtime (a call of the public interface, a transport event,
  an expired timer) and every promise reaction is one step of \<open>step\<close>. Listeners of
  the consumer observe the trace and do nothing else; the state keeps of them only how
  many are registered for \<open>error\<close>, because \<open>EventEmitter.emit\<close> throws when that
  notification has no listener, and the class registers none itself.
\<close>

subsection \<open>Data\<close>

datatype SocketState =
  Idle | Connecting | Connected | Closing | Closed | Reconnecting | Refreshing

type_synonym handle = nat
type_synonym sockid = nat
type_synonym timerid = nat
type_synonym json = string

datatype error =
    TimeoutError
  | NoMethodFound string
  | MessageParserError string
  | AuthenticationFailedError string
  | TypeError string
  | Raised json
  | UnhandledError json

datatype CallArgs = Str string | Num nat | Strs "string list" | Null

text \<open>The outbound packet built by \<open>call\<close>: \<open>{ type, method, arguments, id }\<close>.\<close>

record method_packet =
  ptype :: string
  pmethod :: string
  parguments :: "CallArgs list"
  pid :: nat

text \<open>\<open>IPacket\<close>, with the \<open>error\<close> member that \<open>Reply.handle\<close> reads
  (\<open>None\<close> when it is absent or falsy).\<close>

record IPacket =
  rid :: nat
  rtype :: string
  revent :: string
  rdata :: json
  rerror :: "json option"

text \<open>An inbound frame: the \<open>binary\<close> flag and what \<open>JSON.parse\<close> makes of the
  text (\<open>None\<close> when it throws).\<close>

datatype frame = Frame bool "IPacket option"

record ICallOptions =
  noReply :: bool
  timeout :: "nat option"
  force :: bool

record ISpooledMethod =
  data :: method_packet
  resolve :: handle

text \<open>
  Modelled from the spec: the class \<open>ExponentialReconnectionPolicy\<close> of
  \<open>socket/reconnection\<close> is imported by \<open>util.ts\<close> and is not among the sources. The
  spec describes \<open>next\<close> as exponential growth from a base value with a cap and
  \<open>reset\<close> as zeroing the attempt counter.
\<close>

record ExponentialReconnectionPolicy =
  maxDelay :: nat
  baseDelay :: nat
  retries :: nat

definition policy_next ::
  "ExponentialReconnectionPolicy \<Rightarrow> nat \<times> ExponentialReconnectionPolicy" where
  "policy_next p = (min (maxDelay p) (2 ^ retries p * baseDelay p), p\<lparr>retries := Suc (retries p)\<rparr>)"

definition policy_reset :: "ExponentialReconnectionPolicy \<Rightarrow> ExponentialReconnectionPolicy" where
  "policy_reset p = p\<lparr>retries := 0\<rparr>"

record ISocketOptions =
  reconnectionPolicy :: ExponentialReconnectionPolicy
  autoReconnect :: bool
  replyTimeout :: nat
  callTimeout :: nat
  pingInterval :: nat
  pingTimeout :: nat

text \<open>The members a caller may pass in an options object.\<close>

datatype setting =
    SetReconnectionPolicy ExponentialReconnectionPolicy
  | SetAutoReconnect bool
  | SetReplyTimeout nat
  | SetCallTimeout nat
  | SetPingInterval nat
  | SetPingTimeout nat

definition getDefaults :: ISocketOptions where
  "getDefaults =
     \<lparr>reconnectionPolicy = \<lparr>maxDelay = 20000, baseDelay = 500, retries = 0\<rparr>,
      autoReconnect = True,
      replyTimeout = 10000,
      callTimeout = 20 * 1000,
      pingInterval = 15 * 1000,
      pingTimeout = 5 * 1000\<rparr>"

text \<open>What the class does to the outside.\<close>

datatype payload =
    NoArgs
  | Data json
  | Err error
  | Out method_packet
  | In IPacket
  | Backoff nat json

datatype action =
    Emit string payload
  | NewSocket sockid "string option"
  | SocketSend sockid method_packet
  | SocketClose sockid
  | SocketPing sockid
  | Resolved handle "json option"
  | Rejected handle error
  | Throw error
  | UnhandledRejection error

text \<open>The callbacks handed to \<open>setTimeout\<close>.\<close>

datatype task =
    BootTask
  | PingTask
  | CallTimeoutTask handle
  | PingTimeoutTask

text \<open>
  A call in flight. \<open>call\<close> returns \<open>send(...).then(...).catch(...)\<close>; the record
  keeps what those closures capture (\<open>id\<close>, \<open>options\<close>), the state of the reply
  promise and how far the chain has come. The owner says who consumes the returned
  promise: the caller of the public interface, or the chain that \<open>unSpool\<close> hangs on
  its re-authentication call.
\<close>

datatype outcome = Fulfilled "json option" | Failed error

datatype owner = Caller | ReAuth

datatype stage = AwaitSend | Racing | Settled

record call_rec =
  c_id :: nat
  c_owner :: owner
  c_noReply :: bool
  c_timeout :: "nat option"
  c_reply :: "outcome option"
  c_stage :: stage

text \<open>Promise reactions that are due (the micro task queue).\<close>

datatype job =
    SendThen handle
  | CallSettle handle outcome
  | PingThen
  | PingCatch error

record chat =
  state :: SocketState
  endpoints :: "string list"
  endpointOffset :: nat
  socket :: "sockid option"
  options :: ISocketOptions
  queue :: "(string \<times> ISpooledMethod) list"
  replies :: "nat \<rightharpoonup> handle"
  authPacket :: "(nat \<times> nat option \<times> string option) option"
  pingTimeoutHandle :: "timerid option"
  reconnectTimeout :: "timerid option"
  sockets :: nat
  wired :: "sockid set"
  welcomeOnce :: nat
  authResultOnce :: "handle list"
  pingRaces :: "(timerid \<times> sockid) list"
  timers :: "timerid \<rightharpoonup> nat \<times> task"
  nextTimer :: timerid
  calls :: "handle \<rightharpoonup> call_rec"
  sendWaiter :: "handle \<rightharpoonup> handle"
  nextHandle :: handle
  jobs :: "job list"
  random :: "nat \<Rightarrow> real"
  draws :: nat
  errorListeners :: nat
  trace :: "action list"

subsection \<open>Runtime primitives\<close>

definition tell :: "action \<Rightarrow> chat \<Rightarrow> chat" where
  "tell a s = s\<lparr>trace := trace s @ [a]\<rparr>"

text \<open>
  \<open>EventEmitter.emit\<close>. With no listener registered for \<open>error\<close>, emitting that
  notification throws: the argument itself when it is an \<open>Error\<close>, otherwise an error
  that wraps it. Nothing is delivered then, and the result is the error thrown. For every
  other name, and for \<open>error\<close> with a listener, the call returns normally (\<open>None\<close>).
  The listeners that the class has registered on itself are run by \<open>emitEvent\<close> below.
\<close>

fun unhandled :: "payload \<Rightarrow> error" where
  "unhandled (Err e) = e"
| "unhandled (Data d) = UnhandledError d"
| "unhandled p = UnhandledError []"

definition emit :: "string \<Rightarrow> payload \<Rightarrow> chat \<Rightarrow> error option \<times> chat" where
  "emit name p s =
     (if name = ''error'' \<and> errorListeners s = 0 then (Some (unhandled p), s)
      else (None, tell (Emit name p) s))"

text \<open>\<open>on('error', listener)\<close>, called by the consumer.\<close>

definition onError :: "chat \<Rightarrow> chat" where
  "onError s = s\<lparr>errorListeners := Suc (errorListeners s)\<rparr>"

definition setTimeout :: "task \<Rightarrow> nat \<Rightarrow> chat \<Rightarrow> timerid \<times> chat" where
  "setTimeout f delay s =
     (nextTimer s, s\<lparr>timers := (timers s)(nextTimer s \<mapsto> (delay, f)), nextTimer := Suc (nextTimer s)\<rparr>)"

definition clearTimeout :: "timerid option \<Rightarrow> chat \<Rightarrow> chat" where
  "clearTimeout h s = (case h of None \<Rightarrow> s | Some t \<Rightarrow> s\<lparr>timers := (timers s)(t := None)\<rparr>)"

definition newPromise :: "chat \<Rightarrow> handle \<times> chat" where
  "newPromise s = (nextHandle s, s\<lparr>nextHandle := Suc (nextHandle s)\<rparr>)"

definition enqueue :: "job \<Rightarrow> chat \<Rightarrow> chat" where
  "enqueue j s = s\<lparr>jobs := jobs s @ [j]\<rparr>"

subsection \<open>Construction and configuration\<close>

fun assign :: "setting \<Rightarrow> ISocketOptions \<Rightarrow> ISocketOptions" where
  "assign (SetReconnectionPolicy p) opts = opts\<lparr>reconnectionPolicy := p\<rparr>"
| "assign (SetAutoReconnect b) opts = opts\<lparr>autoReconnect := b\<rparr>"
| "assign (SetReplyTimeout n) opts = opts\<lparr>replyTimeout := n\<rparr>"
| "assign (SetCallTimeout n) opts = opts\<lparr>callTimeout := n\<rparr>"
| "assign (SetPingInterval n) opts = opts\<lparr>pingInterval := n\<rparr>"
| "assign (SetPingTimeout n) opts = opts\<lparr>pingTimeout := n\<rparr>"

definition setOptions :: "setting list \<Rightarrow> chat \<Rightarrow> chat" where
  "setOptions opts s = s\<lparr>options := fold assign opts (options s)\<rparr>"

text \<open>
  \<open>Math.random()\<close>: the generator is a stream of reals, of which the state counts how
  many have been drawn. Its results lie in \<open>[0, 1)\<close>; theorems that need this assume
  it of the stream.
\<close>

definition mathRandom :: "chat \<Rightarrow> real \<times> chat" where
  "mathRandom s = (random s (draws s), s\<lparr>draws := Suc (draws s)\<rparr>)"

definition unit_interval :: "(nat \<Rightarrow> real) \<Rightarrow> bool" where
  "unit_interval rng = (\<forall>i. 0 \<le> rng i \<and> rng i < 1)"

text \<open>\<open>Math.floor(Math.random() * endpoints.length)\<close> for the draw \<open>rnd\<close>.\<close>

definition randomOffset :: "real \<Rightarrow> string list \<Rightarrow> nat" where
  "randomOffset rnd eps = nat \<lfloor>rnd * real (length eps)\<rfloor>"

text \<open>\<open>Math.floor(Math.random() * Number.MAX_SAFE_INTEGER)\<close> for the draw \<open>rnd\<close>.\<close>

definition randomId :: "real \<Rightarrow> nat" where
  "randomId rnd = nat \<lfloor>rnd * 9007199254740991\<rfloor>"

definition ChatSocket :: "string list \<Rightarrow> setting list \<Rightarrow> (nat \<Rightarrow> real) \<Rightarrow> chat" where
  "ChatSocket eps opts rng =
     \<lparr>state = Idle,
      endpoints = eps,
      endpointOffset = randomOffset (rng 0) eps,
      socket = None,
      options = fold assign opts getDefaults,
      queue = [],
      replies = Map.empty,
      authPacket = None,
      pingTimeoutHandle = None,
      reconnectTimeout = None,
      sockets = 0,
      wired = {},
      welcomeOnce = 0,
      authResultOnce = [],
      pingRaces = [],
      timers = Map.empty,
      nextTimer = 0,
      calls = Map.empty,
      sendWaiter = Map.empty,
      nextHandle = 0,
      jobs = [],
      random = rng,
      draws = 1,
      errorListeners = 0,
      trace = []\<rparr>"

definition setEndpoints :: "string list \<Rightarrow> chat \<Rightarrow> chat" where
  "setEndpoints eps s =
     (let (rnd, s1) = mathRandom s
      in s1\<lparr>endpoints := eps, endpointOffset := randomOffset rnd eps\<rparr>)"

definition getState :: "chat \<Rightarrow> SocketState" where
  "getState s = state s"

definition isConnected :: "chat \<Rightarrow> bool" where
  "isConnected s = (state s = Connected)"

subsection \<open>Endpoint rotation\<close>

text \<open>Reading past the end of the array gives \<open>undefined\<close>, here \<open>None\<close>.\<close>

definition getAddress :: "chat \<Rightarrow> string option \<times> chat" where
  "getAddress s =
     (let off = (if Suc (endpointOffset s) \<ge> length (endpoints s) then 0 else Suc (endpointOffset s))
      in (if off < length (endpoints s) then Some (endpoints s ! off) else None,
          s\<lparr>endpointOffset := off\<rparr>))"

text \<open>The addresses returned by \<open>n\<close> successive calls.\<close>

fun addresses :: "nat \<Rightarrow> chat \<Rightarrow> string option list" where
  "addresses 0 s = []"
| "addresses (Suc n) s = fst (getAddress s) # addresses n (snd (getAddress s))"

text \<open>The rotation offsets after each of \<open>n\<close> successive calls.\<close>

fun offsets :: "nat \<Rightarrow> chat \<Rightarrow> nat list" where
  "offsets 0 s = []"
| "offsets (Suc n) s = endpointOffset (snd (getAddress s)) # offsets n (snd (getAddress s))"

subsection \<open>Opening and closing\<close>

text \<open>
  \<open>boot\<close>: the transport is created and stored before the state is looked at. On the
  \<open>Closing\<close> path the method returns with no listener attached to the new transport.
  Otherwise the four listeners go onto the transport (it is \<open>wired\<close>) and a one-shot
  listener for \<open>WelcomeEvent\<close> onto the object.
\<close>

definition boot :: "chat \<Rightarrow> chat" where
  "boot s =
     (let (addr, s1) = getAddress s;
          ws = sockets s1;
          s2 = tell (NewSocket ws addr) (s1\<lparr>socket := Some ws, sockets := Suc ws\<rparr>)
      in if state s2 = Closing then s2\<lparr>state := Refreshing\<rparr>
         else s2\<lparr>state := Connecting, wired := insert ws (wired s2), welcomeOnce := Suc (welcomeOnce s2)\<rparr>)"

definition close :: "chat \<Rightarrow> chat" where
  "close s =
     (case socket s of
        Some ws \<Rightarrow> (tell (SocketClose ws) s)\<lparr>state := Closing\<rparr>
      | None \<Rightarrow> (clearTimeout (pingTimeoutHandle s) (clearTimeout (reconnectTimeout s) s))\<lparr>state := Closed\<rparr>)"

text \<open>The listener for \<open>close\<close> that the constructor registers.\<close>

definition onClose :: "json \<Rightarrow> chat \<Rightarrow> chat" where
  "onClose evt s =
     (if state s = Refreshing then boot (s\<lparr>state := Idle\<rparr>)
      else if state s = Closing then
        (let s1 = snd (emit ''closed'' NoArgs (s\<lparr>state := Closed\<rparr>))
         in clearTimeout (reconnectTimeout s1) (clearTimeout (pingTimeoutHandle s1) s1))
      else if \<not> autoReconnect (options s) then s
      else
        (let s1 = s\<lparr>state := Reconnecting\<rparr>;
             (interval, p) = policy_next (reconnectionPolicy (options s1));
             s2 = s1\<lparr>options := (options s1)\<lparr>reconnectionPolicy := p\<rparr>\<rparr>;
             s3 = snd (emit ''reconnecting'' (Backoff interval evt) s2);
             (t, s4) = setTimeout BootTask interval s3
         in s4\<lparr>reconnectTimeout := Some t\<rparr>))"

subsection \<open>Sending and spooling\<close>

text \<open>
  \<open>send\<close> returns a promise: the result is its handle, and whether it is already
  resolved. Calling a method of \<open>this.socket\<close> while the field is undefined throws a
  \<open>TypeError\<close>: the result is then \<open>None\<close>. \<open>Map.set\<close> on a key that is present
  replaces the value in place; on a new key it appends.
\<close>

definition send :: "method_packet \<Rightarrow> ICallOptions \<Rightarrow> chat \<Rightarrow> (handle \<times> bool) option \<times> chat" where
  "send d opts s =
     (if isConnected s \<or> force opts then
        (case socket s of
           None \<Rightarrow> (None, s)
         | Some ws \<Rightarrow>
             (let s1 = snd (emit ''debug'' (Out d) (tell (SocketSend ws d) s));
                  (p, s2) = newPromise s1
              in (Some (p, True), s2)))
      else if pmethod d \<noteq> ''auth'' then
        (let (p, s1) = newPromise s;
             s2 = s1\<lparr>queue := AList.update (pmethod d) \<lparr>data = d, resolve = p\<rparr> (queue s1)\<rparr>
         in (Some (p, False), snd (emit ''spooled'' (Out d) s2)))
      else
        (let (p, s1) = newPromise s in (Some (p, True), s1)))"

subsection \<open>Calls and replies\<close>

definition updCall :: "handle \<Rightarrow> (call_rec \<Rightarrow> call_rec) \<Rightarrow> chat \<Rightarrow> chat" where
  "updCall h f s = s\<lparr>calls := (calls s)(h := map_option f (calls s h))\<rparr>"

text \<open>
  \<open>call\<close>: the identifier is drawn, the \<open>Reply\<close> is stored under it, and the packet
  goes to \<open>send\<close>. The result is the handle of the promise returned. The reaction to
  the promise of \<open>send\<close> is due at once when that promise is resolved, and waits for the
  spool otherwise.
\<close>

definition call :: "string \<Rightarrow> CallArgs list \<Rightarrow> ICallOptions \<Rightarrow> owner \<Rightarrow> chat \<Rightarrow> handle option \<times> chat" where
  "call m args opts own s =
     (let (rnd, s0) = mathRandom s;
          ident = randomId rnd;
          (h, s1) = newPromise s0;
          s2 = s1\<lparr>replies := (replies s1)(ident \<mapsto> h),
                  calls := (calls s1)(h \<mapsto>
                    \<lparr>c_id = ident, c_owner = own, c_noReply = noReply opts,
                     c_timeout = timeout opts, c_reply = None, c_stage = AwaitSend\<rparr>)\<rparr>
      in case send \<lparr>ptype = ''method'', pmethod = m, parguments = args, pid = ident\<rparr> opts s2 of
           (None, s3) \<Rightarrow> (None, s3)
         | (Some (p, True), s3) \<Rightarrow> (Some h, enqueue (SendThen h) s3)
         | (Some (p, False), s3) \<Rightarrow> (Some h, s3\<lparr>sendWaiter := (sendWaiter s3)(p \<mapsto> h)\<rparr>))"

text \<open>\<open>options.timeout || this.options.callTimeout\<close>.\<close>

definition callDelay :: "nat option \<Rightarrow> ISocketOptions \<Rightarrow> nat" where
  "callDelay t opts =
     (case t of None \<Rightarrow> callTimeout opts
      | Some n \<Rightarrow> if n = 0 then callTimeout opts else n)"

text \<open>
  The callback of \<open>then\<close> in \<open>call\<close>, run once the promise of \<open>send\<close> is resolved.
  With \<open>noReply\<close> the chain is fulfilled; otherwise \<open>timeout\<close> arms its timer and the
  race with the reply promise begins (and is over at once when the reply is already
  there).
\<close>

definition callThen :: "handle \<Rightarrow> chat \<Rightarrow> chat" where
  "callThen h s =
     (case calls s h of
        None \<Rightarrow> s
      | Some c \<Rightarrow>
          if c_noReply c then
            enqueue (CallSettle h (Fulfilled None)) (updCall h (\<lambda>c. c\<lparr>c_stage := Settled\<rparr>) s)
          else
            (let (t, s1) = setTimeout (CallTimeoutTask h) (callDelay (c_timeout c) (options s)) s
             in case c_reply c of
                  None \<Rightarrow> updCall h (\<lambda>c. c\<lparr>c_stage := Racing\<rparr>) s1
                | Some r \<Rightarrow> enqueue (CallSettle h r) (updCall h (\<lambda>c. c\<lparr>c_stage := Settled\<rparr>) s1)))"

text \<open>The timer of \<open>timeout\<close> expires: the race is lost if it is still on.\<close>

definition callTimedOut :: "handle \<Rightarrow> chat \<Rightarrow> chat" where
  "callTimedOut h s =
     (case calls s h of
        None \<Rightarrow> s
      | Some c \<Rightarrow>
          if c_stage c = Racing then
            enqueue (CallSettle h (Failed TimeoutError)) (updCall h (\<lambda>c. c\<lparr>c_stage := Settled\<rparr>) s)
          else s)"

text \<open>The callback of \<open>catch\<close> in \<open>call\<close>; the error is thrown on afterwards.\<close>

definition callCatch :: "handle \<Rightarrow> error \<Rightarrow> chat \<Rightarrow> chat" where
  "callCatch h err s =
     (case calls s h of
        None \<Rightarrow> s
      | Some c \<Rightarrow> if err = TimeoutError then s\<lparr>replies := (replies s)(c_id c := None)\<rparr> else s)"

text \<open>\<open>Reply.handle\<close>, on the \<open>Reply\<close> of the call with handle \<open>h\<close>: it settles the
  reply promise, which decides the race if that is on.\<close>

definition handle_reply :: "handle \<Rightarrow> IPacket \<Rightarrow> chat \<Rightarrow> chat" where
  "handle_reply h packet s =
     (let r = (case rerror packet of Some e \<Rightarrow> Failed (Raised e) | None \<Rightarrow> Fulfilled (Some (rdata packet)))
      in case calls s h of
           None \<Rightarrow> s
         | Some c \<Rightarrow>
             if c_reply c \<noteq> None then s
             else if c_stage c = Racing then
               enqueue (CallSettle h r) (updCall h (\<lambda>c. c\<lparr>c_reply := Some r, c_stage := Settled\<rparr>) s)
             else updCall h (\<lambda>c. c\<lparr>c_reply := Some r\<rparr>) s)"

subsection \<open>Keepalive\<close>

definition resetPingTimeout :: "chat \<Rightarrow> chat" where
  "resetPingTimeout s =
     (let s1 = clearTimeout (pingTimeoutHandle s) s;
          (t, s2) = setTimeout PingTask (pingInterval (options s1)) s1
      in s2\<lparr>pingTimeoutHandle := Some t\<rparr>)"

text \<open>
  \<open>ping\<close> is an async function: its body runs at once. The first component is the
  error with which the returned promise is rejected on the spot, if any; the caller in
  \<open>resetPingTimeout\<close> swallows it. Otherwise the probe is out and the race between
  \<open>timeout(pingTimeout)\<close> and the \<open>pong\<close> of this transport is on; the race is
  named by its timer.
\<close>

definition ping :: "chat \<Rightarrow> error option \<times> chat" where
  "ping s =
     (let s1 = clearTimeout (pingTimeoutHandle s) s
      in if \<not> isConnected s1 then (Some TimeoutError, s1)
         else
           (let (t, s2) = setTimeout PingTimeoutTask (pingTimeout (options s1)) s1
            in case socket s2 of
                 None \<Rightarrow> (Some (TypeError ''socket''), s2)
               | Some ws \<Rightarrow> (None, tell (SocketPing ws) (s2\<lparr>pingRaces := pingRaces s2 @ [(t, ws)]\<rparr>))))"

text \<open>The timer of the race expires.\<close>

definition pingTimedOut :: "timerid \<Rightarrow> chat \<Rightarrow> chat" where
  "pingTimedOut t s =
     (if t \<in> fst ` set (pingRaces s) then
        enqueue (PingCatch TimeoutError) (s\<lparr>pingRaces := filter (\<lambda>r. fst r \<noteq> t) (pingRaces s)\<rparr>)
      else s)"

text \<open>
  The callback of \<open>catch\<close> in \<open>ping\<close>. The first component is the error that leaves
  the callback, if any: an error other than \<open>TimeoutError\<close> is thrown on, and
  \<open>emit('error', err)\<close> throws when nobody listens, which skips \<open>this.socket.close()\<close>.
  The promise of \<open>ping\<close> is then rejected, and the caller in \<open>resetPingTimeout\<close>
  swallows that.
\<close>

definition pingCatch :: "error \<Rightarrow> chat \<Rightarrow> error option \<times> chat" where
  "pingCatch err s =
     (if err \<noteq> TimeoutError then (Some err, s)
      else
        (case emit ''error'' (Err err) s of
           (Some e, s1) \<Rightarrow> (Some e, s1)
         | (None, s1) \<Rightarrow>
             (case socket s1 of
                None \<Rightarrow> (Some (TypeError ''socket''), s1)
              | Some ws \<Rightarrow> (None, tell (SocketClose ws) s1))))"

subsection \<open>Flushing the spool\<close>

text \<open>
  The body of \<open>forEach\<close> in \<open>sendPackets\<close>, over the entries in insertion order.
  \<open>packet.resolve()\<close> resolves the promise that \<open>send\<close> returned when it spooled the
  packet; the reaction of a call waiting on it becomes due. When \<open>send\<close> throws, the
  loop ends and the error leaves \<open>sendPackets\<close>. The promise of a forced \<open>send\<close> is
  never rejected, so the callback of the \<open>catch\<close> on it never runs.
\<close>

fun drain :: "(string \<times> ISpooledMethod) list \<Rightarrow> chat \<Rightarrow> error option \<times> chat" where
  "drain [] s = (None, s)"
| "drain ((key, packet) # rest) s =
     (case send (data packet) \<lparr>noReply = False, timeout = None, force = True\<rparr> s of
        (None, s1) \<Rightarrow> (Some (TypeError ''socket''), s1)
      | (Some _, s1) \<Rightarrow>
          (let s2 = tell (Resolved (resolve packet) None) s1;
               s3 = (case sendWaiter s2 (resolve packet) of
                       None \<Rightarrow> s2
                     | Some h \<Rightarrow> enqueue (SendThen h) s2);
               s4 = s3\<lparr>queue := AList.delete key (queue s3)\<rparr>
           in drain rest s4))"

definition sendPackets :: "chat \<Rightarrow> error option \<times> chat" where
  "sendPackets s =
     (case drain (queue s) s of
        (Some e, s1) \<Rightarrow> (Some e, s1)
      | (None, s1) \<Rightarrow> emit ''connected'' NoArgs (s1\<lparr>state := Connected\<rparr>))"

definition authArgs :: "nat \<times> nat option \<times> string option \<Rightarrow> CallArgs list" where
  "authArgs a =
     (case a of (channelId, userId, authKey) \<Rightarrow>
        [Num channelId,
         (case userId of None \<Rightarrow> Null | Some u \<Rightarrow> Num u),
         (case authKey of None \<Rightarrow> Null | Some k \<Rightarrow> Str k)])"

definition unSpool :: "chat \<Rightarrow> error option \<times> chat" where
  "unSpool s =
     (case authPacket s of
        Some a \<Rightarrow>
          (case call ''auth'' (authArgs a) \<lparr>noReply = False, timeout = None, force = True\<rparr> ReAuth s of
             (None, s1) \<Rightarrow> (Some (TypeError ''socket''), s1)
           | (Some h, s1) \<Rightarrow> (None, s1))
      | None \<Rightarrow> sendPackets s)"

text \<open>\<open>emit('authResult', res)\<close>: the one-shot listeners that \<open>auth\<close> registered
  resolve their promises and are gone.\<close>

definition emitAuthResult :: "json option \<Rightarrow> chat \<Rightarrow> chat" where
  "emitAuthResult res s =
     (let s1 = snd (emit ''authResult'' (case res of None \<Rightarrow> NoArgs | Some d \<Rightarrow> Data d) s);
          s2 = fold (\<lambda>h. tell (Resolved h res)) (authResultOnce s1) s1
      in s2\<lparr>authResultOnce := []\<rparr>)"

text \<open>
  The chain \<open>.then(emit authResult).then(sendPackets).catch(...)\<close> that \<open>unSpool\<close>
  hangs on its call. In the callback of \<open>catch\<close>, \<open>emit('error', ...)\<close> comes before
  \<open>this.close()\<close>: when it throws, \<open>close\<close> is skipped and the promise at the end of
  the chain is rejected, which nobody handles.
\<close>

definition reAuthCatch :: "chat \<Rightarrow> chat" where
  "reAuthCatch s =
     (case emit ''error''
             (Err (AuthenticationFailedError ''Failed to authenticate using saved auth packet.'')) s of
        (Some e, s1) \<Rightarrow> tell (UnhandledRejection e) s1
      | (None, s1) \<Rightarrow> close s1)"

definition reAuthSettled :: "outcome \<Rightarrow> chat \<Rightarrow> chat" where
  "reAuthSettled r s =
     (case r of
        Fulfilled res \<Rightarrow>
          (case sendPackets (emitAuthResult res s) of
             (None, s1) \<Rightarrow> s1
           | (Some e, s1) \<Rightarrow> reAuthCatch s1)
      | Failed err \<Rightarrow> reAuthCatch s)"

text \<open>The promise returned by \<open>call\<close> settles: the callback of \<open>catch\<close> runs on a
  failure, then the consumer of the promise learns the outcome.\<close>

definition callSettled :: "handle \<Rightarrow> outcome \<Rightarrow> chat \<Rightarrow> chat" where
  "callSettled h r s =
     (let s1 = (case r of Failed err \<Rightarrow> callCatch h err s | Fulfilled _ \<Rightarrow> s)
      in case calls s1 h of
           None \<Rightarrow> s1
         | Some c \<Rightarrow>
             (case c_owner c of
                Caller \<Rightarrow> tell (case r of Fulfilled v \<Rightarrow> Resolved h v | Failed err \<Rightarrow> Rejected h err) s1
              | ReAuth \<Rightarrow> reAuthSettled r s1))"

subsection \<open>The handshake and inbound packets\<close>

text \<open>The one-shot listener for \<open>WelcomeEvent\<close> that \<open>boot\<close> registers.\<close>

definition onWelcome :: "json \<Rightarrow> chat \<Rightarrow> error option \<times> chat" where
  "onWelcome d s =
     (let s1 = s\<lparr>options := (options s)\<lparr>reconnectionPolicy := policy_reset (reconnectionPolicy (options s))\<rparr>\<rparr>;
          s2 = (if state s1 = Reconnecting then snd (emit ''reconnected'' NoArgs s1) else s1);
          s3 = resetPingTimeout (s2\<lparr>state := Connected\<rparr>);
          s4 = snd (emit ''ready'' (Data d) s3)
      in unSpool s4)"

text \<open>The registered one-shot listeners run in turn, each removed as it is called; an
  exception leaves the rest in place.\<close>

fun welcomeListeners :: "nat \<Rightarrow> json \<Rightarrow> chat \<Rightarrow> error option \<times> chat" where
  "welcomeListeners 0 d s = (None, s)"
| "welcomeListeners (Suc n) d s =
     (case onWelcome d (s\<lparr>welcomeOnce := welcomeOnce s - 1\<rparr>) of
        (Some e, s1) \<Rightarrow> (Some e, s1)
      | (None, s1) \<Rightarrow> welcomeListeners n d s1)"

text \<open>\<open>emit\<close> for a name chosen by the server: the notification (which throws for an
  event named \<open>error\<close> that nobody listens to), then the listeners that the class itself
  has on that name.\<close>

definition emitEvent :: "string \<Rightarrow> json \<Rightarrow> chat \<Rightarrow> error option \<times> chat" where
  "emitEvent name d s =
     (case emit name (Data d) s of
        (Some e, s1) \<Rightarrow> (Some e, s1)
      | (None, s1) \<Rightarrow>
          if name = ''close'' then (None, onClose d s1)
          else if name = ''WelcomeEvent'' then welcomeListeners (welcomeOnce s1) d s1
          else if name = ''authResult'' then
            (None, (fold (\<lambda>h. tell (Resolved h (Some d))) (authResultOnce s1) s1)\<lparr>authResultOnce := []\<rparr>)
          else (None, s1))"

text \<open>\<open>parsePacket\<close>. Each \<open>emit('error', ...)\<close> is the last thing done on its branch,
  so the method returns normally or throws as that call does.\<close>

definition parsePacket :: "frame \<Rightarrow> chat \<Rightarrow> error option \<times> chat" where
  "parsePacket fr s =
     (case fr of Frame binary parsed \<Rightarrow>
        if binary then
          emit ''error'' (Err (MessageParserError ''Somehow got a binary packet?'')) s
        else
          (case parsed of
             None \<Rightarrow> emit ''error'' (Err (MessageParserError ''Unable to parse the packet as JSON.'')) s
           | Some packet \<Rightarrow>
               (let s1 = snd (emit ''debug'' (In packet) s)
                in if rtype packet = ''reply'' then
                     (case replies s1 (rid packet) of
                        Some h \<Rightarrow>
                          (let s2 = handle_reply h packet s1
                           in (None, s2\<lparr>replies := (replies s2)(rid packet := None)\<rparr>))
                      | None \<Rightarrow> emit ''error'' (Err (NoMethodFound ''No handler for reply Id.'')) s1)
                   else if rtype packet = ''event'' then emitEvent (revent packet) (rdata packet) s1
                   else emit ''error'' (Err (MessageParserError (''Unknown packet found '' @ rtype packet))) s1)))"

subsection \<open>Authentication\<close>

definition auth :: "nat \<Rightarrow> nat option \<Rightarrow> string option \<Rightarrow> chat \<Rightarrow> handle option \<times> chat" where
  "auth channelId userId authKey s =
     (let s1 = s\<lparr>authPacket := Some (channelId, userId, authKey)\<rparr>
      in if isConnected s1 then
           call ''auth'' (authArgs (channelId, userId, authKey))
             \<lparr>noReply = False, timeout = None, force = False\<rparr> Caller s1
         else
           (let (h, s2) = newPromise s1
            in (Some h, s2\<lparr>authResultOnce := authResultOnce s2 @ [h]\<rparr>)))"

subsection \<open>Transport events, timers and promise reactions\<close>

text \<open>The guard \<open>whilstSameSocket\<close>, on a transport that \<open>boot\<close> attached listeners
  to.\<close>

definition sameSocket :: "sockid \<Rightarrow> chat \<Rightarrow> bool" where
  "sameSocket ws s = (ws \<in> wired s \<and> socket s = Some ws)"

definition wsOpen :: "sockid \<Rightarrow> chat \<Rightarrow> chat" where
  "wsOpen ws s = (if sameSocket ws s then snd (emit ''open'' NoArgs s) else s)"

definition wsMessage :: "sockid \<Rightarrow> frame \<Rightarrow> chat \<Rightarrow> error option \<times> chat" where
  "wsMessage ws fr s = (if sameSocket ws s then parsePacket fr (resetPingTimeout s) else (None, s))"

definition wsClose :: "sockid \<Rightarrow> json \<Rightarrow> chat \<Rightarrow> chat" where
  "wsClose ws evt s = (if sameSocket ws s then onClose evt (snd (emit ''close'' (Data evt) s)) else s)"

text \<open>The listener for the transport's \<open>error\<close>: when \<open>emit('error', err)\<close> throws,
  \<open>ws.close()\<close> is skipped and the error leaves the listener.\<close>

definition wsError :: "sockid \<Rightarrow> json \<Rightarrow> chat \<Rightarrow> error option \<times> chat" where
  "wsError ws err s =
     (if sameSocket ws s then
        (if state s = Closing then (None, s)
         else
           (case emit ''error'' (Err (Raised err)) s of
              (Some e, s1) \<Rightarrow> (Some e, s1)
            | (None, s1) \<Rightarrow> (None, tell (SocketClose ws) s1)))
      else (None, s))"

text \<open>A \<open>pong\<close> of a transport resolves the races waiting on it.\<close>

definition wsPong :: "sockid \<Rightarrow> chat \<Rightarrow> chat" where
  "wsPong ws s =
     (fold (\<lambda>r. enqueue PingThen) (filter (\<lambda>r. snd r = ws) (pingRaces s))
        (s\<lparr>pingRaces := filter (\<lambda>r. snd r \<noteq> ws) (pingRaces s)\<rparr>))"

definition runTask :: "timerid \<Rightarrow> task \<Rightarrow> chat \<Rightarrow> chat" where
  "runTask t f s =
     (case f of
        BootTask \<Rightarrow> boot s
      | PingTask \<Rightarrow> snd (ping s)
      | CallTimeoutTask h \<Rightarrow> callTimedOut h s
      | PingTimeoutTask \<Rightarrow> pingTimedOut t s)"

text \<open>An armed timer expires.\<close>

definition expire :: "timerid \<Rightarrow> chat \<Rightarrow> chat" where
  "expire t s =
     (case timers s t of
        None \<Rightarrow> s
      | Some (delay, f) \<Rightarrow> runTask t f (s\<lparr>timers := (timers s)(t := None)\<rparr>))"

text \<open>A promise reaction. An error that leaves the callback of \<open>catch\<close> in \<open>ping\<close>
  rejects the promise of \<open>ping\<close>, which its caller swallows with
  \<open>catch(() => undefined)\<close>.\<close>

definition runJob :: "job \<Rightarrow> chat \<Rightarrow> chat" where
  "runJob j s =
     (case j of
        SendThen h \<Rightarrow> callThen h s
      | CallSettle h r \<Rightarrow> callSettled h r s
      | PingThen \<Rightarrow> resetPingTimeout s
      | PingCatch err \<Rightarrow> snd (pingCatch err s))"

text \<open>The first promise reaction that is due runs.\<close>

definition microtask :: "chat \<Rightarrow> chat" where
  "microtask s = (case jobs s of [] \<Rightarrow> s | j # js \<Rightarrow> runJob j (s\<lparr>jobs := js\<rparr>))"

subsection \<open>Steps\<close>

datatype event =
    Boot
  | Close
  | SetOptions "setting list"
  | SetEndpoints "string list"
  | GetAddress
  | Send method_packet ICallOptions
  | Call string "CallArgs list" ICallOptions
  | Auth nat "nat option" "string option"
  | ParsePacket frame
  | WsOpen sockid
  | WsMessage sockid frame
  | WsClose sockid json
  | WsError sockid json
  | WsPong sockid
  | Expire timerid
  | Microtask
  | OnError

text \<open>An exception that leaves a method or a listener is recorded.\<close>

definition thrown :: "error option \<times> chat \<Rightarrow> chat" where
  "thrown r = (case fst r of None \<Rightarrow> snd r | Some e \<Rightarrow> tell (Throw e) (snd r))"

definition thrownOpt :: "'a option \<times> chat \<Rightarrow> chat" where
  "thrownOpt r = (case fst r of Some _ \<Rightarrow> snd r | None \<Rightarrow> tell (Throw (TypeError ''socket'')) (snd r))"

fun step :: "event \<Rightarrow> chat \<Rightarrow> chat" where
  "step Boot s = boot s"
| "step Close s = close s"
| "step (SetOptions opts) s = setOptions opts s"
| "step (SetEndpoints eps) s = setEndpoints eps s"
| "step GetAddress s = snd (getAddress s)"
| "step (Send d opts) s = thrownOpt (send d opts s)"
| "step (Call m args opts) s = thrownOpt (call m args opts Caller s)"
| "step (Auth channelId userId authKey) s = thrownOpt (auth channelId userId authKey s)"
| "step (ParsePacket fr) s = thrown (parsePacket fr s)"
| "step (WsOpen ws) s = wsOpen ws s"
| "step (WsMessage ws fr) s = thrown (wsMessage ws fr s)"
| "step (WsClose ws evt) s = wsClose ws evt s"
| "step (WsError ws err) s = thrown (wsError ws err s)"
| "step (WsPong ws) s = wsPong ws s"
| "step (Expire t) s = expire t s"
| "step Microtask s = microtask s"
| "step OnError s = onError s"

text \<open>The state after a sequence of steps, the first event first.\<close>

definition run :: "event list \<Rightarrow> chat \<Rightarrow> chat" where
  "run es s = fold step es s"

subsection \<open>Concrete runs\<close>

text \<open>A socket with two endpoints is booted and closed: \<open>close\<close> finds the transport
  and the state is \<open>Closing\<close>.\<close>

definition closing_example :: chat where
  "closing_example = close (boot (ChatSocket [''a'', ''b''] [] (\<lambda>i. 0)))"

text \<open>Before any \<open>boot\<close>, the server's event named \<open>close\<close> reaches
  \<open>parsePacket\<close>: the reconnect timer is armed and there is no transport.\<close>

definition backoff_example :: chat where
  "backoff_example =
     step (ParsePacket (Frame False (Some \<lparr>rid = 0, rtype = ''event'', revent = ''close'', rdata = ''gone'', rerror = None\<rparr>)))
       (ChatSocket [''a''] [] (\<lambda>i. 0))"

text \<open>A socket that must not reconnect by itself is booted.\<close>

definition no_reconnect_example :: chat where
  "no_reconnect_example = boot (ChatSocket [''a''] [SetAutoReconnect False] (\<lambda>i. 0))"











subsection \<open>Observing the spool\<close>

text \<open>How often the notification \<open>connected\<close> has been emitted, whatever its
  argument, and the events by which the server has the class emit a notification of a
  given name.\<close>

fun is_connected :: "action \<Rightarrow> bool" where
  "is_connected (Emit name p) = (name = ''connected'')"
| "is_connected a = False"

definition connected_count :: "chat \<Rightarrow> nat" where
  "connected_count s = length (filter is_connected (trace s))"

fun relays :: "string \<Rightarrow> event \<Rightarrow> bool" where
  "relays name (ParsePacket (Frame binary (Some p))) = (\<not> binary \<and> rtype p = ''event'' \<and> revent p = name)"
| "relays name (WsMessage ws (Frame binary (Some p))) = (\<not> binary \<and> rtype p = ''event'' \<and> revent p = name)"
| "relays name e = False"

text \<open>What the flush does for one entry of the spool, and the reactions that become
  due by resolving the entries' promises.\<close>

definition flushActions :: "sockid \<Rightarrow> string \<times> ISpooledMethod \<Rightarrow> action list" where
  "flushActions ws e =
     [SocketSend ws (data (snd e)), Emit ''debug'' (Out (data (snd e))), Resolved (resolve (snd e)) None]"

definition dueReactions :: "chat \<Rightarrow> (string \<times> ISpooledMethod) list \<Rightarrow> job list" where
  "dueReactions s q = List.map_filter (\<lambda>e. map_option SendThen (sendWaiter s (resolve (snd e)))) q"

text \<open>A step either leaves the spool and the count of announcements alone, or ends with
  the spool empty.\<close>

definition quiet_or_drained :: "chat \<Rightarrow> chat \<Rightarrow> bool" where
  "quiet_or_drained s s' =
     (nextHandle s \<le> nextHandle s' \<and>
      (queue s' = queue s \<and> connected_count s' = connected_count s \<or> queue s' = []))"

text \<open>The spool is well formed: one entry per key, each entry under the method of its
  packet, and its promise allocated.\<close>

definition spool_ok :: "chat \<Rightarrow> bool" where
  "spool_ok s =
     (distinct (map fst (queue s)) \<and>
      (\<forall>e \<in> set (queue s). pmethod (data (snd e)) = fst e \<and> resolve (snd e) < nextHandle s))"

text \<open>The packets handed to the transport and the promises resolved, in a trace.\<close>

fun sent_packets :: "action list \<Rightarrow> method_packet list" where
  "sent_packets [] = []"
| "sent_packets (SocketSend ws d # as) = d # sent_packets as"
| "sent_packets (a # as) = sent_packets as"

fun resolved_handles :: "action list \<Rightarrow> handle list" where
  "resolved_handles [] = []"
| "resolved_handles (Resolved h v # as) = h # resolved_handles as"
| "resolved_handles (a # as) = resolved_handles as"

text \<open>A step that may add to the spool: it leaves it alone or sets one key.\<close>

definition may_spool :: "chat \<Rightarrow> chat \<Rightarrow> bool" where
  "may_spool s s' =
     (connected_count s' = connected_count s \<and> nextHandle s \<le> nextHandle s' \<and>
      (queue s' = queue s \<or>
       (\<exists>d p. queue s' = AList.update (pmethod d) \<lparr>data = d, resolve = p\<rparr> (queue s) \<and> p < nextHandle s')))"

text \<open>Two chat messages are sent on a socket that was never booted.\<close>

definition chat_msg :: "string \<Rightarrow> nat \<Rightarrow> method_packet" where
  "chat_msg text n = \<lparr>ptype = ''method'', pmethod = ''msg'', parguments = [Str text], pid = n\<rparr>"

definition plain :: ICallOptions where
  "plain = \<lparr>noReply = False, timeout = None, force = False\<rparr>"

definition idle_example :: chat where
  "idle_example = ChatSocket [''a''] [] (\<lambda>i. 0)"

definition spooled_twice_example :: chat where
  "spooled_twice_example = run [Send (chat_msg ''one'' 1) plain, Send (chat_msg ''two'' 2) plain] idle_example"









subsection \<open>Calls made with and without a connection\<close>









subsection \<open>Observing the handle returned by \<open>auth\<close>\<close>

text \<open>
  A handle is settled by a \<open>Resolved\<close> or a \<open>Rejected\<close> action that names it; the
  \<open>authResult\<close> notification is the only thing the handle returned by \<open>auth\<close> on a
  socket that is not connected listens to.
\<close>

fun rejects :: "handle \<Rightarrow> action \<Rightarrow> bool" where
  "rejects w (Rejected h err) = (h = w)"
| "rejects w a = False"

fun settles :: "handle \<Rightarrow> action \<Rightarrow> bool" where
  "settles w (Resolved h v) = (h = w)"
| "settles w (Rejected h err) = (h = w)"
| "settles w a = False"

fun is_authResult :: "action \<Rightarrow> bool" where
  "is_authResult (Emit name p) = (name = ''authResult'')"
| "is_authResult a = False"

text \<open>
  What a stretch \<open>ns\<close> of the trace may do to a waiting handle \<open>w\<close>: it never rejects
  it, it settles it only if \<open>authResult\<close> was emitted, and \<open>w\<close> stays among the
  once-listeners for \<open>authResult\<close> unless that notification was emitted.
\<close>

definition silent :: "handle \<Rightarrow> handle list \<Rightarrow> handle list \<Rightarrow> action list \<Rightarrow> bool" where
  "silent w before after ns =
     (\<not> list_ex (rejects w) ns \<and>
      (list_ex (settles w) ns \<longrightarrow> list_ex is_authResult ns) \<and>
      (w \<in> set before \<longrightarrow> w \<in> set after \<or> list_ex is_authResult ns))"

text \<open>
  Handles are allocated in order, so the handle about to be allocated belongs to no call
  and to no spooled packet. \<open>keeps w s s'\<close> says that going from \<open>s\<close> to \<open>s'\<close> preserves
  this, and is \<open>silent\<close> about \<open>w\<close>.
\<close>

definition calls_ok :: "chat \<Rightarrow> bool" where
  "calls_ok s = (\<forall>h. calls s h \<noteq> None \<longrightarrow> h < nextHandle s)"

definition detached :: "handle \<Rightarrow> chat \<Rightarrow> bool" where
  "detached w s =
     (w < nextHandle s \<and> calls s w = None \<and> (\<forall>e \<in> set (queue s). resolve (snd e) \<noteq> w))"

definition keeps :: "handle \<Rightarrow> chat \<Rightarrow> chat \<Rightarrow> bool" where
  "keeps w s s' =
     ((calls_ok s \<longrightarrow> calls_ok s') \<and>
      (detached w s \<longrightarrow>
         detached w s' \<and>
         (\<exists>ns. trace s' = trace s @ ns \<and> silent w (authResultOnce s) (authResultOnce s') ns)))"







section \<open>Properties\<close>

subsection \<open>Endpoint rotation\<close>

lemma getAddress_step:
  assumes "endpointOffset s < length (endpoints s)"
  shows "getAddress s = (Some (endpoints s ! (Suc (endpointOffset s) mod length (endpoints s))),
           s\<lparr>endpointOffset := Suc (endpointOffset s) mod length (endpoints s)\<rparr>)"
proof (cases "Suc (endpointOffset s) = length (endpoints s)")
  case True
  moreover from assms have "endpoints s \<noteq> []" by auto
  ultimately show ?thesis by (simp add: getAddress_def)
next
  case False
  with assms have "Suc (endpointOffset s) < length (endpoints s)" by simp
  then show ?thesis by (simp add: getAddress_def)
qed

lemma mod_shift: "(Suc a mod N + k + 1) mod N = (a + Suc k + 1) mod (N::nat)"
  using mod_add_left_eq [of "Suc a" N "k + 1"] by (simp add: algebra_simps)

lemma addresses_eq:
  "endpointOffset s < length (endpoints s) \<Longrightarrow>
   addresses n s = map (\<lambda>k. Some (endpoints s ! ((endpointOffset s + k + 1) mod length (endpoints s)))) [0..<n]"
proof (induction n arbitrary: s)
  case 0
  then show ?case by simp
next
  case (Suc n)
  let ?N = "length (endpoints s)"
  let ?s' = "s\<lparr>endpointOffset := Suc (endpointOffset s) mod ?N\<rparr>"
  have N: "0 < ?N" using Suc.prems by (cases "endpoints s") simp_all
  have g: "getAddress s = (Some (endpoints s ! (Suc (endpointOffset s) mod ?N)), ?s')"
    using Suc.prems by (rule getAddress_step)
  have lt: "endpointOffset ?s' < length (endpoints ?s')" using N by simp
  have "addresses (Suc n) s = Some (endpoints s ! (Suc (endpointOffset s) mod ?N)) # addresses n ?s'"
    by (simp add: g)
  also have "addresses n ?s' = map (\<lambda>k. Some (endpoints s ! ((Suc (endpointOffset s) mod ?N + k + 1) mod ?N))) [0..<n]"
    using Suc.IH [OF lt] by simp
  also have "\<dots> = map (\<lambda>k. Some (endpoints s ! ((endpointOffset s + Suc k + 1) mod ?N))) [0..<n]"
    by (simp only: mod_shift)
  finally show ?case
    by (simp add: map_upt_Suc del: upt_Suc)
qed

lemma offsets_eq:
  "endpointOffset s < length (endpoints s) \<Longrightarrow>
   offsets n s = map (\<lambda>k. (endpointOffset s + k + 1) mod length (endpoints s)) [0..<n]"
proof (induction n arbitrary: s)
  case 0
  then show ?case by simp
next
  case (Suc n)
  let ?N = "length (endpoints s)"
  let ?s' = "s\<lparr>endpointOffset := Suc (endpointOffset s) mod ?N\<rparr>"
  have N: "0 < ?N" using Suc.prems by (cases "endpoints s") simp_all
  have g: "getAddress s = (Some (endpoints s ! (Suc (endpointOffset s) mod ?N)), ?s')"
    using Suc.prems by (rule getAddress_step)
  have lt: "endpointOffset ?s' < length (endpoints ?s')" using N by simp
  have "offsets (Suc n) s = (Suc (endpointOffset s) mod ?N) # offsets n ?s'"
    by (simp add: g)
  also have "offsets n ?s' = map (\<lambda>k. (Suc (endpointOffset s) mod ?N + k + 1) mod ?N) [0..<n]"
    using Suc.IH [OF lt] by simp
  also have "\<dots> = map (\<lambda>k. (endpointOffset s + Suc k + 1) mod ?N) [0..<n]"
    by (simp only: mod_shift)
  finally show ?case
    by (simp add: map_upt_Suc del: upt_Suc)
qed

lemma rotation_inj: "0 < (N::nat) \<Longrightarrow> inj_on (\<lambda>k. (off + k + 1) mod N) {0..<N}"
proof (rule inj_onI)
  fix x y assume N: "0 < N" and x: "x \<in> {0..<N}" and y: "y \<in> {0..<N}"
    and e: "(off + x + 1) mod N = (off + y + 1) mod N"
  have aux: "a = b" if "a \<le> b" "b < N" "(off + a + 1) mod N = (off + b + 1) mod N" for a b
  proof -
    have "(off + b + 1) mod N = (off + a + 1) mod N" using that(3) by simp
    moreover have "off + a + 1 \<le> off + b + 1" using that(1) by simp
    ultimately have "N dvd (off + b + 1) - (off + a + 1)"
      by (simp only: mod_eq_dvd_iff_nat)
    then have "N dvd b - a" by simp
    moreover have "b - a < N" using that(2) by simp
    ultimately have "b - a = 0" by (meson dvd_imp_le not_less neq0_conv)
    with that(1) show ?thesis by simp
  qed
  show "x = y"
  proof (cases "x \<le> y")
    case True
    then show ?thesis using aux [of x y] y e by simp
  next
    case False
    then have "y \<le> x" by simp
    then show ?thesis using aux [of y x] x e by simp
  qed
qed

lemma rotation_distinct: "0 < (N::nat) \<Longrightarrow> distinct (map (\<lambda>k. (off + k + 1) mod N) [0..<N])"
  using rotation_inj [of N off] by (simp add: distinct_map)

lemma rotation_set: "0 < (N::nat) \<Longrightarrow> set (map (\<lambda>k. (off + k + 1) mod N) [0..<N]) = {0..<N}"
proof -
  assume N: "0 < N"
  have "(\<lambda>k. (off + k + 1) mod N) ` {0..<N} \<subseteq> {0..<N}" using N by auto
  moreover have "card ((\<lambda>k. (off + k + 1) mod N) ` {0..<N}) = card {0..<N}"
    using rotation_inj [OF N] by (rule card_image)
  ultimately have "(\<lambda>k. (off + k + 1) mod N) ` {0..<N} = {0..<N}"
    by (intro card_subset_eq) simp_all
  then show ?thesis by simp
qed

lemma randomOffset_less:
  assumes "0 \<le> rnd" "rnd < 1" "eps \<noteq> []"
  shows "randomOffset rnd eps < length eps"
proof -
  have pos: "0 < real (length eps)" using assms(3) by simp
  have "rnd * real (length eps) < 1 * real (length eps)"
    using assms(2) pos by (rule mult_strict_right_mono)
  then have "\<lfloor>rnd * real (length eps)\<rfloor> < int (length eps)"
    by (simp add: floor_less_iff)
  moreover have "0 \<le> \<lfloor>rnd * real (length eps)\<rfloor>" using assms(1) by simp
  ultimately show ?thesis by (simp add: randomOffset_def nat_less_iff)
qed

text \<open>
  C2. With a non-empty endpoint list of length \<open>N\<close> and the offset below \<open>N\<close>,
  \<open>getAddress\<close> moves the offset to \<open>(offset + 1) mod N\<close> and returns the endpoint
  there. The \<open>k\<close>-th of any number of successive calls (counting from 0) returns the
  endpoint at \<open>(offset + k + 1) mod N\<close>; the offsets of \<open>N\<close> successive calls are
  pairwise distinct and are all of \<open>0, ..., N - 1\<close>. The constructor leaves the offset
  at the random start, which is below \<open>N\<close> for a draw in \<open>[0, 1)\<close>, so the first call
  returns the endpoint at \<open>(random start + 1) mod N\<close>.
\<close>

theorem getAddress_round_robin:
  assumes "endpoints s \<noteq> []" and "endpointOffset s < length (endpoints s)"
  shows "getAddress s =
           (Some (endpoints s ! ((endpointOffset s + 1) mod length (endpoints s))),
            s\<lparr>endpointOffset := (endpointOffset s + 1) mod length (endpoints s)\<rparr>)
       \<and> addresses n s =
           map (\<lambda>k. Some (endpoints s ! ((endpointOffset s + k + 1) mod length (endpoints s)))) [0..<n]
       \<and> offsets n s = map (\<lambda>k. (endpointOffset s + k + 1) mod length (endpoints s)) [0..<n]
       \<and> distinct (offsets (length (endpoints s)) s)
       \<and> set (offsets (length (endpoints s)) s) = {0..<length (endpoints s)}
       \<and> (unit_interval rng \<and> eps \<noteq> [] \<longrightarrow>
            endpointOffset (ChatSocket eps opts rng) = randomOffset (rng 0) eps
          \<and> randomOffset (rng 0) eps < length eps
          \<and> fst (getAddress (ChatSocket eps opts rng)) =
              Some (eps ! ((randomOffset (rng 0) eps + 1) mod length eps)))"
proof -
  have N: "0 < length (endpoints s)" using assms(1) by simp
  have a: "getAddress s =
           (Some (endpoints s ! ((endpointOffset s + 1) mod length (endpoints s))),
            s\<lparr>endpointOffset := (endpointOffset s + 1) mod length (endpoints s)\<rparr>)"
    using getAddress_step [OF assms(2)] by simp
  have b: "addresses n s =
           map (\<lambda>k. Some (endpoints s ! ((endpointOffset s + k + 1) mod length (endpoints s)))) [0..<n]"
    using assms(2) by (rule addresses_eq)
  have c: "offsets m s = map (\<lambda>k. (endpointOffset s + k + 1) mod length (endpoints s)) [0..<m]" for m
    using assms(2) by (rule offsets_eq)
  have d: "distinct (offsets (length (endpoints s)) s)"
    unfolding c using N by (rule rotation_distinct)
  have e: "set (offsets (length (endpoints s)) s) = {0..<length (endpoints s)}"
    unfolding c using N by (rule rotation_set)
  have f: "endpointOffset (ChatSocket eps opts rng) = randomOffset (rng 0) eps
          \<and> randomOffset (rng 0) eps < length eps
          \<and> fst (getAddress (ChatSocket eps opts rng)) =
              Some (eps ! ((randomOffset (rng 0) eps + 1) mod length eps))"
    if u: "unit_interval rng" and ne: "eps \<noteq> []"
  proof -
    have lt: "randomOffset (rng 0) eps < length eps"
      using u ne by (simp add: unit_interval_def randomOffset_less)
    have off: "endpointOffset (ChatSocket eps opts rng) = randomOffset (rng 0) eps"
      and eps: "endpoints (ChatSocket eps opts rng) = eps"
      by (simp_all add: ChatSocket_def)
    have "endpointOffset (ChatSocket eps opts rng) < length (endpoints (ChatSocket eps opts rng))"
      using lt by (simp only: off eps)
    from getAddress_step [OF this] show ?thesis using lt by (simp add: off eps)
  qed
  show ?thesis using a b c [of n] d e f by blast
qed

theorem getAddress_round_robin_witness:
  "endpoints (ChatSocket [''a'', ''b'', ''c''] [] (\<lambda>i. 1 / 2)) \<noteq> []
   \<and> endpointOffset (ChatSocket [''a'', ''b'', ''c''] [] (\<lambda>i. 1 / 2)) = 1
   \<and> unit_interval (\<lambda>i. 1 / 2)
   \<and> fst (getAddress (ChatSocket [''a'', ''b'', ''c''] [] (\<lambda>i. 1 / 2))) = Some ''c''
   \<and> addresses 4 (ChatSocket [''a'', ''b'', ''c''] [] (\<lambda>i. 1 / 2)) =
        [Some ''c'', Some ''a'', Some ''b'', Some ''c'']
   \<and> offsets 3 (ChatSocket [''a'', ''b'', ''c''] [] (\<lambda>i. 1 / 2)) = [2, 0, 1]"
proof -
  let ?s = "ChatSocket [''a'', ''b'', ''c''] [] (\<lambda>i. 1 / 2)"
  have u: "unit_interval (\<lambda>i. 1 / 2)" by (simp add: unit_interval_def)
  have off: "endpointOffset ?s = 1" by (simp add: ChatSocket_def randomOffset_def)
  have eps: "endpoints ?s = [''a'', ''b'', ''c'']" by (simp add: ChatSocket_def)
  have h1: "endpoints ?s \<noteq> []" by (simp add: eps)
  have h2: "endpointOffset ?s < length (endpoints ?s)" by (simp add: off eps)
  have up4: "[0..<4] = [0, 1, 2, 3::nat]" by (simp add: upt_rec)
  have up3: "[0..<3] = [0, 1, 2::nat]" by (simp add: upt_rec)
  note inst = getAddress_round_robin [OF h1 h2, of _ "\<lambda>i. 1 / 2" "[''a'', ''b'', ''c'']" "[]"]
  from inst [of 4]
  have "addresses 4 ?s =
          map (\<lambda>k. Some (endpoints ?s ! ((endpointOffset ?s + k + 1) mod length (endpoints ?s)))) [0..<4]"
    by blast
  then have A: "addresses 4 ?s = [Some ''c'', Some ''a'', Some ''b'', Some ''c'']"
    by (simp add: off eps up4)
  from inst [of 3]
  have "offsets 3 ?s = map (\<lambda>k. (endpointOffset ?s + k + 1) mod length (endpoints ?s)) [0..<3]"
    by blast
  then have B: "offsets 3 ?s = [2, 0, 1]"
    by (simp add: off eps up3)
  have ne: "[''a'', ''b'', ''c''] \<noteq> []" by simp
  from inst [of 0] u ne
  have "fst (getAddress ?s) =
          Some ([''a'', ''b'', ''c''] ! ((randomOffset (1 / 2) [''a'', ''b'', ''c''] + 1) mod length [''a'', ''b'', ''c'']))"
    by blast
  then have C: "fst (getAddress ?s) = Some ''c''"
    by (simp add: randomOffset_def)
  show ?thesis using A B C off h1 u by simp
qed

subsection \<open>Booting while the transport is closing\<close>

lemma closing_example_fields:
  "state closing_example = Closing" "socket closing_example = Some 0" "sockets closing_example = 1"
  "wired closing_example = {0}" "endpointOffset closing_example = 1"
  "endpoints closing_example = [''a'', ''b'']"
  "trace closing_example = [NewSocket 0 (Some ''b''), SocketClose 0]"
  by (simp_all add: closing_example_def close_def boot_def ChatSocket_def getAddress_def
        randomOffset_def tell_def Let_def)

text \<open>
  C1. \<open>boot\<close> in state \<open>Closing\<close> moves the state to \<open>Refreshing\<close>, but it has
  already created a second transport and stored it in \<open>this.socket\<close>, with no listener
  attached. The close of the first transport is then filtered out by its guard, and the
  second transport has no listener, so neither close event resumes the connect.
\<close>

theorem boot_while_closing_opens_transport:
  "state closing_example = Closing
   \<and> socket closing_example = Some 0
   \<and> state (boot closing_example) = Refreshing
   \<and> socket (boot closing_example) = Some 1
   \<and> sockets (boot closing_example) = Suc (sockets closing_example)
   \<and> trace (boot closing_example) = trace closing_example @ [NewSocket 1 (Some ''a'')]
   \<and> wsClose 0 ''evt'' (boot closing_example) = boot closing_example
   \<and> wsClose 1 ''evt'' (boot closing_example) = boot closing_example"
  by (simp add: closing_example_fields boot_def getAddress_def tell_def Let_def wsClose_def sameSocket_def)

subsection \<open>Closing\<close>

lemmas prim_defs = tell_def emit_def setTimeout_def clearTimeout_def newPromise_def enqueue_def
  mathRandom_def isConnected_def

lemma emit_other [simp]: "name \<noteq> ''error'' \<Longrightarrow> emit name p s = (None, tell (Emit name p) s)"
  by (simp add: emit_def)

lemma emit_error:
  "emit ''error'' p s =
     (if errorListeners s = 0 then (Some (unhandled p), s) else (None, tell (Emit ''error'' p) s))"
  by (simp add: emit_def)

lemma emit_cases: "snd (emit name p s) = s \<or> snd (emit name p s) = tell (Emit name p) s"
  by (simp add: emit_def)

lemma emitEvent_unfold:
  "emitEvent name d s =
     (if name = ''error'' \<and> errorListeners s = 0 then (Some (UnhandledError d), s)
      else if name = ''close'' then (None, onClose d (tell (Emit name (Data d)) s))
      else if name = ''WelcomeEvent'' then
        welcomeListeners (welcomeOnce s) d (tell (Emit name (Data d)) s)
      else if name = ''authResult'' then
        (None, (fold (\<lambda>h. tell (Resolved h (Some d))) (authResultOnce s) (tell (Emit name (Data d)) s))
                 \<lparr>authResultOnce := []\<rparr>)
      else (None, tell (Emit name (Data d)) s))"
  by (simp add: emitEvent_def emit_def tell_def)

lemma close_without_transport:
  "socket s = None \<Longrightarrow>
   close s = s\<lparr>timers := (\<lambda>t. if Some t = pingTimeoutHandle s \<or> Some t = reconnectTimeout s then None else timers s t),
              state := Closed\<rparr>"
  by (cases "pingTimeoutHandle s"; cases "reconnectTimeout s") (auto simp add: close_def prim_defs fun_eq_iff)

lemma backoff_example_fields:
  "socket backoff_example = None" "state backoff_example = Reconnecting"
  "reconnectTimeout backoff_example = Some 0"
  "timers backoff_example 0 = Some (500, BootTask)"
  "trace backoff_example = [Emit ''debug'' (In \<lparr>rid = 0, rtype = ''event'', revent = ''close'', rdata = ''gone'', rerror = None\<rparr>),
      Emit ''close'' (Data ''gone''), Emit ''reconnecting'' (Backoff 500 ''gone'')]"
  by (simp_all add: backoff_example_def thrown_def parsePacket_def emitEvent_def onClose_def ChatSocket_def
      prim_defs policy_next_def getDefaults_def Let_def)

text \<open>
  C3. \<open>close\<close> without a transport sets the state to \<open>Closed\<close> and clears both
  timers, and emits nothing: the trace is unchanged, so there is no \<open>closed\<close>
  notification. Shown on a freshly constructed socket, and on one whose reconnect timer
  is armed.
\<close>

theorem close_without_transport_is_silent:
  "socket backoff_example = None
   \<and> timers backoff_example 0 = Some (500, BootTask)
   \<and> reconnectTimeout backoff_example = Some 0
   \<and> state (close backoff_example) = Closed
   \<and> timers (close backoff_example) 0 = None
   \<and> trace (close backoff_example) = trace backoff_example
   \<and> Emit ''closed'' NoArgs \<notin> set (trace (close backoff_example))
   \<and> socket (ChatSocket [''a''] [] (\<lambda>i. 0)) = None
   \<and> state (close (ChatSocket [''a''] [] (\<lambda>i. 0))) = Closed
   \<and> trace (close (ChatSocket [''a''] [] (\<lambda>i. 0))) = []"
  by (simp add: close_without_transport backoff_example_fields) (simp add: ChatSocket_def close_def prim_defs)

subsection \<open>The transport closes and reconnecting is off\<close>

lemma no_reconnect_example_fields:
  "state no_reconnect_example = Connecting" "socket no_reconnect_example = Some 0"
  "wired no_reconnect_example = {0}" "\<not> autoReconnect (options no_reconnect_example)"
  "timers no_reconnect_example = Map.empty"
  by (simp_all add: no_reconnect_example_def boot_def getAddress_def ChatSocket_def prim_defs Let_def
      getDefaults_def randomOffset_def)

text \<open>C7, as stated, fails: the transport of a connecting socket closes with
  \<open>autoReconnect\<close> off, and the state is still \<open>Connecting\<close>, not \<open>Idle\<close>.\<close>

theorem close_event_without_autoReconnect_counterexample:
  "state no_reconnect_example = Connecting
   \<and> \<not> autoReconnect (options no_reconnect_example)
   \<and> sameSocket 0 no_reconnect_example
   \<and> state (wsClose 0 ''evt'' no_reconnect_example) = Connecting
   \<and> state (wsClose 0 ''evt'' no_reconnect_example) \<noteq> Idle"
  by (simp add: no_reconnect_example_fields wsClose_def sameSocket_def onClose_def prim_defs)

text \<open>
  C7, amended. When the transport closes in state \<open>Connecting\<close>, \<open>Connected\<close> or
  \<open>Reconnecting\<close> and \<open>autoReconnect\<close> is false, the listener for \<open>close\<close>
  changes nothing: the state stays what it was, no timer is armed and nothing but the
  \<open>close\<close> notification itself is emitted.
\<close>

theorem close_event_without_autoReconnect:
  assumes "state s = Connecting \<or> state s = Connected \<or> state s = Reconnecting"
    and "\<not> autoReconnect (options s)"
  shows "onClose evt s = s
       \<and> wsClose ws evt s =
           (if sameSocket ws s then s\<lparr>trace := trace s @ [Emit ''close'' (Data evt)]\<rparr> else s)"
  using assms by (auto simp add: wsClose_def onClose_def prim_defs)

theorem close_event_without_autoReconnect_witness:
  "(state no_reconnect_example = Connecting \<or> state no_reconnect_example = Connected
      \<or> state no_reconnect_example = Reconnecting)
   \<and> \<not> autoReconnect (options no_reconnect_example)
   \<and> sameSocket 0 no_reconnect_example
   \<and> wsClose 0 ''evt'' no_reconnect_example =
       no_reconnect_example\<lparr>trace := trace no_reconnect_example @ [Emit ''close'' (Data ''evt'')]\<rparr>"
proof -
  have h1: "state no_reconnect_example = Connecting \<or> state no_reconnect_example = Connected
      \<or> state no_reconnect_example = Reconnecting"
    by (simp add: no_reconnect_example_fields)
  have h2: "\<not> autoReconnect (options no_reconnect_example)"
    by (simp add: no_reconnect_example_fields)
  have h3: "sameSocket 0 no_reconnect_example"
    by (simp add: sameSocket_def no_reconnect_example_fields)
  from close_event_without_autoReconnect [OF h1 h2, of "''evt''" 0] h1 h2 h3
  show ?thesis by simp
qed

subsection \<open>Evaluating concrete runs\<close>






subsection \<open>Keepalive\<close>











subsection \<open>Making a call\<close>




lemma callThen_racing:
  assumes "calls s h = Some c" "\<not> c_noReply c" "c_reply c = None"
  shows "callThen h s =
     s\<lparr>timers := (timers s)(nextTimer s \<mapsto> (callDelay (c_timeout c) (options s), CallTimeoutTask h)),
       nextTimer := Suc (nextTimer s),
       calls := (calls s)(h \<mapsto> c\<lparr>c_stage := Racing\<rparr>)\<rparr>"
  using assms by (simp add: callThen_def setTimeout_def updCall_def)

lemma callThen_noReply:
  assumes "calls s h = Some c" "c_noReply c"
  shows "callThen h s =
     s\<lparr>calls := (calls s)(h \<mapsto> c\<lparr>c_stage := Settled\<rparr>),
       jobs := jobs s @ [CallSettle h (Fulfilled None)]\<rparr>"
  using assms by (simp add: callThen_def updCall_def enqueue_def)


subsection \<open>The correlator map\<close>

lemma fold_tell_fields [simp]:
  "replies (fold (\<lambda>h. tell (f h)) hs s) = replies s"
  "queue (fold (\<lambda>h. tell (f h)) hs s) = queue s"
  "calls (fold (\<lambda>h. tell (f h)) hs s) = calls s"
  "nextHandle (fold (\<lambda>h. tell (f h)) hs s) = nextHandle s"
  "authResultOnce (fold (\<lambda>h. tell (f h)) hs s) = authResultOnce s"
  "socket (fold (\<lambda>h. tell (f h)) hs s) = socket s"
  "trace (fold (\<lambda>h. tell (f h)) hs s) = trace s @ map f hs"
  by (induction hs arbitrary: s) (simp_all add: tell_def)

lemma replies_basic [simp]:
  "replies (tell a s) = replies s"
  "replies (snd (emit n p s)) = replies s"
  "replies (snd (setTimeout f d s)) = replies s"
  "replies (clearTimeout t s) = replies s"
  "replies (snd (newPromise s)) = replies s"
  "replies (enqueue j s) = replies s"
  "replies (snd (mathRandom s)) = replies s"
  "replies (snd (getAddress s)) = replies s"
  "replies (updCall h g s) = replies s"
  by (simp_all add: prim_defs getAddress_def updCall_def Let_def split: option.splits)

lemma replies_boot [simp]: "replies (boot s) = replies s"
  by (simp add: boot_def Let_def case_prod_beta)

lemma replies_close [simp]: "replies (close s) = replies s"
  by (simp add: close_def split: option.splits)

lemma replies_onClose [simp]: "replies (onClose evt s) = replies s"
  by (simp add: onClose_def Let_def case_prod_beta)

lemma replies_send [simp]: "replies (snd (send d opts s)) = replies s"
  by (simp add: send_def Let_def case_prod_beta split: option.splits)

lemma replies_sendE: "send d opts s = (r, s1) \<Longrightarrow> replies s1 = replies s"
  by (metis replies_send snd_conv)


lemma replies_callThen [simp]: "replies (callThen h s) = replies s"
  by (simp add: callThen_def Let_def case_prod_beta split: option.splits)

lemma replies_callTimedOut [simp]: "replies (callTimedOut h s) = replies s"
  by (simp add: callTimedOut_def split: option.splits)

lemma replies_handle_reply [simp]: "replies (handle_reply h p s) = replies s"
  by (simp add: handle_reply_def Let_def split: option.splits)

lemma replies_keepalive [simp]:
  "replies (resetPingTimeout s) = replies s"
  "replies (snd (ping s)) = replies s"
  "replies (pingTimedOut t s) = replies s"
  "replies (snd (pingCatch err s)) = replies s"
  by (simp_all add: resetPingTimeout_def ping_def pingTimedOut_def pingCatch_def emit_error Let_def
      case_prod_beta split: option.splits)

lemma replies_drain [simp]: "replies (snd (drain q s)) = replies s"
proof (induction q arbitrary: s)
  case Nil
  then show ?case by simp
next
  case (Cons e q)
  obtain key packet where e: "e = (key, packet)" by (cases e)
  obtain r s1 where sd: "send (data packet) \<lparr>noReply = False, timeout = None, force = True\<rparr> s = (r, s1)"
    by (cases "send (data packet) \<lparr>noReply = False, timeout = None, force = True\<rparr> s")
  have s1: "replies s1 = replies s" by (rule replies_sendE [OF sd])
  show ?case
    by (cases r) (simp_all add: e sd s1 Cons.IH Let_def split: option.splits)
qed

lemma replies_sendPackets [simp]: "replies (snd (sendPackets s)) = replies s"
proof -
  obtain b s1 where d: "drain (queue s) s = (b, s1)" by (cases "drain (queue s) s")
  have "replies s1 = replies s" by (metis replies_drain d snd_conv)
  then show ?thesis by (cases b) (simp_all add: sendPackets_def d)
qed






lemma replies_misc [simp]:
  "replies (emitAuthResult res s) = replies s"
  "replies (reAuthCatch s) = replies s"
  "replies (setOptions opts s) = replies s"
  "replies (setEndpoints eps s) = replies s"
  "replies (wsOpen ws s) = replies s"
  "replies (wsClose ws evt s) = replies s"
  "replies (snd (wsError ws err s)) = replies s"
  "replies (onError s) = replies s"
  by (simp_all add: emitAuthResult_def reAuthCatch_def setOptions_def setEndpoints_def wsOpen_def
      wsClose_def wsError_def onError_def emit_error Let_def mathRandom_def case_prod_beta)

lemma fold_enqueue_replies [simp]: "replies (fold (\<lambda>r. enqueue j) rs s) = replies s"
  by (induction rs arbitrary: s) simp_all

lemma replies_wsPong [simp]: "replies (wsPong ws s) = replies s"
  by (simp add: wsPong_def)

lemma replies_reAuthSettled [simp]: "replies (reAuthSettled r s) = replies s"
proof (cases r)
  case (Fulfilled res)
  obtain b s1 where sp: "sendPackets (emitAuthResult res s) = (b, s1)"
    by (cases "sendPackets (emitAuthResult res s)")
  have "replies s1 = replies (emitAuthResult res s)" by (metis replies_sendPackets sp snd_conv)
  then show ?thesis by (cases b) (simp_all add: reAuthSettled_def Fulfilled sp)
next
  case (Failed err)
  then show ?thesis by (simp add: reAuthSettled_def)
qed

lemma replies_expire [simp]: "replies (expire t s) = replies s"
  by (simp add: expire_def runTask_def case_prod_beta split: option.splits task.splits)







subsection \<open>The spool\<close>

lemma send_forced:
  assumes "isConnected s \<or> force opts" and "socket s = Some ws"
  shows "send d opts s =
     (Some (nextHandle s, True),
      s\<lparr>trace := trace s @ [SocketSend ws d, Emit ''debug'' (Out d)], nextHandle := Suc (nextHandle s)\<rparr>)"
  using assms by (auto simp add: send_def prim_defs Let_def)

lemma send_spooled:
  assumes "\<not> isConnected s" and "\<not> force opts" and "pmethod d \<noteq> ''auth''"
  shows "send d opts s =
     (Some (nextHandle s, False),
      s\<lparr>nextHandle := Suc (nextHandle s),
        queue := AList.update (pmethod d) \<lparr>data = d, resolve = nextHandle s\<rparr> (queue s),
        trace := trace s @ [Emit ''spooled'' (Out d)]\<rparr>)"
  using assms by (simp add: send_def prim_defs Let_def)

lemma delete_filter: "AList.delete k al = filter (\<lambda>x. fst x \<noteq> k) al"
  by (induction al) auto

lemma drain_with_transport:
  "socket s = Some ws \<Longrightarrow>
   drain q s =
     (None,
      s\<lparr>trace := trace s @ concat (map (flushActions ws) q),
        nextHandle := nextHandle s + length q,
        jobs := jobs s @ dueReactions s q,
        queue := filter (\<lambda>x. fst x \<notin> fst ` set q) (queue s)\<rparr>)"
proof (induction q arbitrary: s)
  case Nil
  then show ?case by (simp add: dueReactions_def)
next
  case (Cons e q)
  obtain key packet where e: "e = (key, packet)" by (cases e)
  let ?s1 = "s\<lparr>trace := trace s @ [SocketSend ws (data packet), Emit ''debug'' (Out (data packet))],
               nextHandle := Suc (nextHandle s)\<rparr>"
  have sd: "send (data packet) \<lparr>noReply = False, timeout = None, force = True\<rparr> s = (Some (nextHandle s, True), ?s1)"
    using Cons.prems by (simp add: send_forced)
  let ?js = "(case sendWaiter s (resolve packet) of None \<Rightarrow> [] | Some h \<Rightarrow> [SendThen h])"
  let ?s4 = "?s1\<lparr>trace := trace s @ flushActions ws e, jobs := jobs s @ ?js,
               queue := AList.delete key (queue s)\<rparr>"
  have step: "drain (e # q) s = drain q ?s4"
    by (simp add: e sd Let_def tell_def enqueue_def flushActions_def split: option.splits)
  have sock: "socket ?s4 = Some ws" using Cons.prems by simp
  have dr: "dueReactions ?s4 q = dueReactions s q" by (simp add: dueReactions_def)
  have dc: "dueReactions s (e # q) = ?js @ dueReactions s q"
    by (simp add: dueReactions_def e List.map_filter_simps split: option.splits)
  show ?case
    unfolding step Cons.IH [OF sock] dr dc
    by (simp add: e delete_filter conj_commute)
qed

lemma drain_without_transport:
  "socket s = None \<Longrightarrow> drain q s = (if q = [] then None else Some (TypeError ''socket''), s)"
  by (cases q) (auto simp add: send_def)

lemma sendPackets_with_transport:
  "socket s = Some ws \<Longrightarrow>
   sendPackets s =
     (None,
      s\<lparr>trace := trace s @ concat (map (flushActions ws) (queue s)) @ [Emit ''connected'' NoArgs],
        nextHandle := nextHandle s + length (queue s),
        jobs := jobs s @ dueReactions s (queue s),
        queue := [],
        state := Connected\<rparr>)"
  by (simp add: sendPackets_def drain_with_transport emit_def tell_def)

lemma sendPackets_without_transport:
  "socket s = None \<Longrightarrow>
   sendPackets s =
     (if queue s = [] then (None, s\<lparr>state := Connected, trace := trace s @ [Emit ''connected'' NoArgs]\<rparr>)
      else (Some (TypeError ''socket''), s))"
  by (simp add: sendPackets_def drain_without_transport emit_def tell_def)

lemma count_tell [simp]:
  "connected_count (tell a s) = connected_count s + (if is_connected a then 1 else 0)"
  by (simp add: connected_count_def tell_def)

lemma connected_count_cong: "trace s' = trace s \<Longrightarrow> connected_count s' = connected_count s"
  by (simp add: connected_count_def)

lemma fold_tell_count [simp]:
  "connected_count (fold (\<lambda>h. tell (Resolved h v)) hs s) = connected_count s"
  by (induction hs arbitrary: s) simp_all

lemma basic_spool [simp]:
  "queue (tell a s) = queue s" "nextHandle (tell a s) = nextHandle s"
  "queue (snd (emit n p s)) = queue s" "nextHandle (snd (emit n p s)) = nextHandle s"
  "connected_count (snd (emit n p s)) = connected_count s + (if n = ''connected'' then 1 else 0)"
  "queue (enqueue j s) = queue s" "nextHandle (enqueue j s) = nextHandle s"
  "connected_count (enqueue j s) = connected_count s"
  "queue (clearTimeout t s) = queue s" "nextHandle (clearTimeout t s) = nextHandle s"
  "connected_count (clearTimeout t s) = connected_count s"
  "queue (snd (setTimeout f delay s)) = queue s" "nextHandle (snd (setTimeout f delay s)) = nextHandle s"
  "connected_count (snd (setTimeout f delay s)) = connected_count s"
  "queue (updCall h g s) = queue s" "nextHandle (updCall h g s) = nextHandle s"
  "connected_count (updCall h g s) = connected_count s"
  by (auto simp add: prim_defs updCall_def connected_count_def split: option.splits)

lemma count_update [simp]:
  "connected_count (s\<lparr>state := a1\<rparr>) = connected_count s"
  "connected_count (s\<lparr>options := a2\<rparr>) = connected_count s"
  "connected_count (s\<lparr>queue := a3\<rparr>) = connected_count s"
  "connected_count (s\<lparr>replies := a4\<rparr>) = connected_count s"
  "connected_count (s\<lparr>welcomeOnce := a5\<rparr>) = connected_count s"
  "connected_count (s\<lparr>authResultOnce := a6\<rparr>) = connected_count s"
  "connected_count (s\<lparr>jobs := a7\<rparr>) = connected_count s"
  "connected_count (s\<lparr>nextHandle := a8\<rparr>) = connected_count s"
  "connected_count (s\<lparr>authPacket := a9\<rparr>) = connected_count s"
  "connected_count (s\<lparr>timers := b1\<rparr>) = connected_count s"
  "connected_count (s\<lparr>nextTimer := b2\<rparr>) = connected_count s"
  "connected_count (s\<lparr>calls := b3\<rparr>) = connected_count s"
  "connected_count (s\<lparr>sendWaiter := b4\<rparr>) = connected_count s"
  "connected_count (s\<lparr>pingRaces := b5\<rparr>) = connected_count s"
  "connected_count (s\<lparr>socket := b6\<rparr>) = connected_count s"
  "connected_count (s\<lparr>draws := b7\<rparr>) = connected_count s"
  "connected_count (s\<lparr>pingTimeoutHandle := b8\<rparr>) = connected_count s"
  "connected_count (s\<lparr>reconnectTimeout := b9\<rparr>) = connected_count s"
  "connected_count (s\<lparr>errorListeners := c1\<rparr>) = connected_count s"
  by (simp_all add: connected_count_def)

lemma fold_enqueue_fields [simp]:
  "queue (fold (\<lambda>r. enqueue j) rs s) = queue s"
  "nextHandle (fold (\<lambda>r. enqueue j) rs s) = nextHandle s"
  "trace (fold (\<lambda>r. enqueue j) rs s) = trace s"
  by (induction rs arbitrary: s) (simp_all add: enqueue_def)

lemma boot_spool [simp]:
  "queue (boot s) = queue s" "nextHandle (boot s) = nextHandle s"
  "connected_count (boot s) = connected_count s"
  by (simp_all add: boot_def getAddress_def prim_defs connected_count_def Let_def case_prod_beta
      split: option.splits)

lemma close_spool [simp]:
  "queue (close s) = queue s" "nextHandle (close s) = nextHandle s"
  "connected_count (close s) = connected_count s"
  by (simp_all add: close_def prim_defs connected_count_def Let_def case_prod_beta
      split: option.splits)

lemma onClose_spool [simp]:
  "queue (onClose evt s) = queue s" "nextHandle (onClose evt s) = nextHandle s"
  "connected_count (onClose evt s) = connected_count s"
  by (simp_all add: onClose_def boot_def getAddress_def policy_next_def prim_defs connected_count_def Let_def case_prod_beta
      split: option.splits)

lemma callThen_spool [simp]:
  "queue (callThen h s) = queue s" "nextHandle (callThen h s) = nextHandle s"
  "connected_count (callThen h s) = connected_count s"
  by (simp_all add: callThen_def updCall_def prim_defs connected_count_def Let_def case_prod_beta
      split: option.splits)

lemma callTimedOut_spool [simp]:
  "queue (callTimedOut h s) = queue s" "nextHandle (callTimedOut h s) = nextHandle s"
  "connected_count (callTimedOut h s) = connected_count s"
  by (simp_all add: callTimedOut_def updCall_def prim_defs connected_count_def Let_def case_prod_beta
      split: option.splits)

lemma callCatch_spool [simp]:
  "queue (callCatch h err s) = queue s" "nextHandle (callCatch h err s) = nextHandle s"
  "connected_count (callCatch h err s) = connected_count s"
  by (simp_all add: callCatch_def prim_defs connected_count_def Let_def case_prod_beta
      split: option.splits)

lemma handle_reply_spool [simp]:
  "queue (handle_reply h p s) = queue s" "nextHandle (handle_reply h p s) = nextHandle s"
  "connected_count (handle_reply h p s) = connected_count s"
  by (simp_all add: handle_reply_def updCall_def prim_defs connected_count_def Let_def case_prod_beta
      split: option.splits)

lemma resetPingTimeout_spool [simp]:
  "queue (resetPingTimeout s) = queue s" "nextHandle (resetPingTimeout s) = nextHandle s"
  "connected_count (resetPingTimeout s) = connected_count s"
  by (simp_all add: resetPingTimeout_def prim_defs connected_count_def Let_def case_prod_beta
      split: option.splits)

lemma ping_spool [simp]:
  "queue (snd (ping s)) = queue s" "nextHandle (snd (ping s)) = nextHandle s"
  "connected_count (snd (ping s)) = connected_count s"
  by (simp_all add: ping_def prim_defs connected_count_def Let_def case_prod_beta
      split: option.splits)

lemma pingTimedOut_spool [simp]:
  "queue (pingTimedOut t s) = queue s" "nextHandle (pingTimedOut t s) = nextHandle s"
  "connected_count (pingTimedOut t s) = connected_count s"
  by (simp_all add: pingTimedOut_def prim_defs connected_count_def Let_def case_prod_beta
      split: option.splits)

lemma pingCatch_spool [simp]:
  "queue (snd (pingCatch err s)) = queue s" "nextHandle (snd (pingCatch err s)) = nextHandle s"
  "connected_count (snd (pingCatch err s)) = connected_count s"
  by (simp_all add: pingCatch_def emit_error tell_def connected_count_def Let_def case_prod_beta
      split: option.splits)

lemma reAuthCatch_spool [simp]:
  "queue (reAuthCatch s) = queue s" "nextHandle (reAuthCatch s) = nextHandle s"
  "connected_count (reAuthCatch s) = connected_count s"
  by (simp_all add: reAuthCatch_def close_def emit_error tell_def clearTimeout_def connected_count_def
      Let_def case_prod_beta split: option.splits)

lemma setOptions_spool [simp]:
  "queue (setOptions opts s) = queue s" "nextHandle (setOptions opts s) = nextHandle s"
  "connected_count (setOptions opts s) = connected_count s"
  by (simp_all add: setOptions_def prim_defs connected_count_def Let_def case_prod_beta
      split: option.splits)

lemma setEndpoints_spool [simp]:
  "queue (setEndpoints eps s) = queue s" "nextHandle (setEndpoints eps s) = nextHandle s"
  "connected_count (setEndpoints eps s) = connected_count s"
  by (simp_all add: setEndpoints_def prim_defs connected_count_def Let_def case_prod_beta
      split: option.splits)

lemma getAddress_spool [simp]:
  "queue (snd (getAddress s)) = queue s" "nextHandle (snd (getAddress s)) = nextHandle s"
  "connected_count (snd (getAddress s)) = connected_count s"
  by (simp_all add: getAddress_def prim_defs connected_count_def Let_def case_prod_beta
      split: option.splits)

lemma wsOpen_spool [simp]:
  "queue (wsOpen ws s) = queue s" "nextHandle (wsOpen ws s) = nextHandle s"
  "connected_count (wsOpen ws s) = connected_count s"
  by (simp_all add: wsOpen_def prim_defs connected_count_def Let_def case_prod_beta
      split: option.splits)

lemma wsClose_spool [simp]:
  "queue (wsClose ws evt s) = queue s" "nextHandle (wsClose ws evt s) = nextHandle s"
  "connected_count (wsClose ws evt s) = connected_count s"
  by (simp_all add: wsClose_def onClose_def boot_def getAddress_def policy_next_def prim_defs connected_count_def Let_def case_prod_beta
      split: option.splits)

lemma wsError_spool [simp]:
  "queue (snd (wsError ws err s)) = queue s" "nextHandle (snd (wsError ws err s)) = nextHandle s"
  "connected_count (snd (wsError ws err s)) = connected_count s"
  by (simp_all add: wsError_def emit_error tell_def connected_count_def Let_def case_prod_beta
      split: option.splits)

lemma onError_spool [simp]:
  "queue (onError s) = queue s" "nextHandle (onError s) = nextHandle s"
  "connected_count (onError s) = connected_count s"
  by (simp_all add: onError_def)

lemma wsPong_spool [simp]:
  "queue (wsPong ws s) = queue s" "nextHandle (wsPong ws s) = nextHandle s"
  "connected_count (wsPong ws s) = connected_count s"
  by (simp_all add: wsPong_def connected_count_def)

lemma expire_spool [simp]:
  "queue (expire t s) = queue s" "nextHandle (expire t s) = nextHandle s"
  "connected_count (expire t s) = connected_count s"
  by (simp_all add: expire_def runTask_def case_prod_beta split: option.splits task.splits)

lemma emitAuthResult_spool [simp]:
  "queue (emitAuthResult res s) = queue s" "nextHandle (emitAuthResult res s) = nextHandle s"
  "connected_count (emitAuthResult res s) = connected_count s"
  by (simp_all add: emitAuthResult_def Let_def split: option.splits)

lemma quiet_refl [simp]: "quiet_or_drained s s"
  by (simp add: quiet_or_drained_def)

lemma quiet_trans: "quiet_or_drained s s1 \<Longrightarrow> quiet_or_drained s1 s2 \<Longrightarrow> quiet_or_drained s s2"
  by (auto simp add: quiet_or_drained_def)

lemma quiet_same:
  "queue s' = queue s \<Longrightarrow> connected_count s' = connected_count s \<Longrightarrow> nextHandle s \<le> nextHandle s' \<Longrightarrow>
   quiet_or_drained s s'"
  by (simp add: quiet_or_drained_def)

lemma call_forced_spool:
  assumes "force opts"
  shows "queue (snd (call m args opts own s)) = queue s"
    and "connected_count (snd (call m args opts own s)) = connected_count s"
    and "nextHandle s \<le> nextHandle (snd (call m args opts own s))"
  using assms
  by (simp_all add: call_def send_def prim_defs connected_count_def Let_def case_prod_beta
      split: option.splits)

lemma sendPackets_quiet: "quiet_or_drained s (snd (sendPackets s))"
proof (cases "socket s")
  case None
  then show ?thesis by (simp add: sendPackets_without_transport quiet_or_drained_def)
next
  case (Some ws)
  then show ?thesis by (simp add: sendPackets_with_transport quiet_or_drained_def)
qed

lemma unSpool_quiet: "quiet_or_drained s (snd (unSpool s))"
proof (cases "authPacket s")
  case None
  then show ?thesis by (simp add: unSpool_def sendPackets_quiet)
next
  case (Some a)
  let ?c = "call ''auth'' (authArgs a) \<lparr>noReply = False, timeout = None, force = True\<rparr> ReAuth s"
  have "quiet_or_drained s (snd ?c)"
    by (rule quiet_same) (simp_all add: call_forced_spool)
  moreover have "snd (unSpool s) = snd ?c"
    by (simp add: unSpool_def Some case_prod_beta split: option.splits)
  ultimately show ?thesis by simp
qed

lemma onWelcome_quiet: "quiet_or_drained s (snd (onWelcome d s))"
proof -
  let ?s4 = "tell (Emit ''ready'' (Data d))
      (resetPingTimeout
        ((if state s = Reconnecting
          then tell (Emit ''reconnected'' NoArgs)
                (s\<lparr>options := (options s)\<lparr>reconnectionPolicy := policy_reset (reconnectionPolicy (options s))\<rparr>\<rparr>)
          else s\<lparr>options := (options s)\<lparr>reconnectionPolicy := policy_reset (reconnectionPolicy (options s))\<rparr>\<rparr>)
         \<lparr>state := Connected\<rparr>))"
  have a: "onWelcome d s = unSpool ?s4" by (simp add: onWelcome_def Let_def)
  have "quiet_or_drained s ?s4"
    by (rule quiet_same) simp_all
  from quiet_trans [OF this unSpool_quiet] show ?thesis by (simp only: a)
qed

lemma welcomeListeners_quiet: "quiet_or_drained s (snd (welcomeListeners n d s))"
proof (induction n arbitrary: s)
  case 0
  then show ?case by simp
next
  case (Suc n)
  let ?s0 = "s\<lparr>welcomeOnce := welcomeOnce s - 1\<rparr>"
  have q0: "quiet_or_drained s ?s0" by (rule quiet_same) simp_all
  have q1: "quiet_or_drained s (snd (onWelcome d ?s0))" by (rule quiet_trans [OF q0 onWelcome_quiet])
  show ?case
  proof (cases "fst (onWelcome d ?s0)")
    case None
    then have "welcomeListeners (Suc n) d s = welcomeListeners n d (snd (onWelcome d ?s0))"
      by (simp add: case_prod_beta)
    then show ?thesis using quiet_trans [OF q1 Suc.IH] by simp
  next
    case (Some e)
    then have "snd (welcomeListeners (Suc n) d s) = snd (onWelcome d ?s0)"
      by (simp add: case_prod_beta)
    then show ?thesis using q1 by simp
  qed
qed

lemma emitEvent_quiet:
  assumes "name \<noteq> ''connected''"
  shows "quiet_or_drained s (snd (emitEvent name d s))"
proof -
  let ?s1 = "tell (Emit name (Data d)) s"
  have q1: "quiet_or_drained s ?s1" by (rule quiet_same) (simp_all add: assms)
  have "quiet_or_drained ?s1 (snd (emitEvent name d s)) \<or> snd (emitEvent name d s) = s"
    by (simp add: emitEvent_unfold welcomeListeners_quiet quiet_same)
  then show ?thesis using quiet_trans [OF q1] by auto
qed

lemma emitEvent_connected:
  "emitEvent ''connected'' d s = (None, tell (Emit ''connected'' (Data d)) s)"
  by (simp add: emitEvent_unfold)

lemma parsePacket_event:
  "rtype p = ''event'' \<Longrightarrow>
   parsePacket (Frame False (Some p)) s = emitEvent (revent p) (rdata p) (tell (Emit ''debug'' (In p)) s)"
  by (simp add: parsePacket_def Let_def)

lemma parsePacket_quiet:
  assumes "\<not> relays ''connected'' (ParsePacket fr)"
  shows "quiet_or_drained s (snd (parsePacket fr s))"
proof (cases fr)
  case (Frame binary parsed)
  show ?thesis
  proof (cases "\<not> binary \<and> (\<exists>p. parsed = Some p \<and> rtype p = ''event'')")
    case True
    then obtain p where p: "parsed = Some p" "rtype p = ''event''" "\<not> binary" by blast
    have ne: "revent p \<noteq> ''connected''" using assms p by (simp add: Frame)
    have q1: "quiet_or_drained s (tell (Emit ''debug'' (In p)) s)" by (rule quiet_same) simp_all
    have "snd (parsePacket fr s) = snd (emitEvent (revent p) (rdata p) (tell (Emit ''debug'' (In p)) s))"
      using p by (simp add: Frame parsePacket_event)
    then show ?thesis using quiet_trans [OF q1 emitEvent_quiet [OF ne]] by simp
  next
    case False
    show ?thesis
      by (rule quiet_same)
        (use False in \<open>auto simp add: parsePacket_def emit_error Frame Let_def split: option.splits\<close>)
  qed
qed

lemma parsePacket_relayed:
  assumes "relays ''connected'' (ParsePacket fr)"
  shows "queue (snd (parsePacket fr s)) = queue s" and "nextHandle (snd (parsePacket fr s)) = nextHandle s"
proof -
  obtain binary p where fr: "fr = Frame binary (Some p)" and p: "\<not> binary" "rtype p = ''event''" "revent p = ''connected''"
    using assms by (cases fr; cases "case fr of Frame b q \<Rightarrow> q") auto
  show "queue (snd (parsePacket fr s)) = queue s" and "nextHandle (snd (parsePacket fr s)) = nextHandle s"
    using p by (simp_all add: fr parsePacket_event emitEvent_connected)
qed

lemma reAuthSettled_quiet: "quiet_or_drained s (reAuthSettled r s)"
proof (cases r)
  case (Fulfilled res)
  have q1: "quiet_or_drained s (emitAuthResult res s)" by (rule quiet_same) simp_all
  have q2: "quiet_or_drained s (snd (sendPackets (emitAuthResult res s)))"
    by (rule quiet_trans [OF q1 sendPackets_quiet])
  have q3: "quiet_or_drained s (reAuthCatch (snd (sendPackets (emitAuthResult res s))))"
    by (rule quiet_trans [OF q2]) (rule quiet_same, simp_all)
  show ?thesis using q2 q3 by (simp add: reAuthSettled_def Fulfilled case_prod_beta split: option.splits)
next
  case (Failed err)
  show ?thesis by (rule quiet_same) (simp_all add: reAuthSettled_def Failed)
qed

lemma callSettled_quiet: "quiet_or_drained s (callSettled h r s)"
proof -
  let ?s1 = "(case r of Failed err \<Rightarrow> callCatch h err s | Fulfilled _ \<Rightarrow> s)"
  have q1: "quiet_or_drained s ?s1" by (rule quiet_same) (simp_all split: outcome.splits)
  have "quiet_or_drained ?s1 (callSettled h r s)"
    by (cases r) (simp_all add: callSettled_def Let_def reAuthSettled_quiet quiet_same
        split: option.splits owner.splits)
  from quiet_trans [OF q1 this] show ?thesis .
qed

lemma microtask_quiet: "quiet_or_drained s (microtask s)"
proof (cases "jobs s")
  case Nil
  then show ?thesis by (simp add: microtask_def)
next
  case (Cons j js)
  have q1: "quiet_or_drained s (s\<lparr>jobs := js\<rparr>)" by (rule quiet_same) simp_all
  have "quiet_or_drained (s\<lparr>jobs := js\<rparr>) (runJob j (s\<lparr>jobs := js\<rparr>))"
    by (cases j) (simp_all add: runJob_def callSettled_quiet quiet_same)
  from quiet_trans [OF q1 this] show ?thesis by (simp add: microtask_def Cons)
qed

lemma thrown_quiet: "quiet_or_drained s (snd r) \<Longrightarrow> quiet_or_drained s (thrown r)"
  by (simp add: thrown_def quiet_or_drained_def split: option.splits)

lemma send_may_spool: "may_spool s (snd (send d opts s))"
  by (auto simp add: may_spool_def send_def prim_defs connected_count_def Let_def split: option.splits)

lemma may_spool_before:
  "queue s1 = queue s \<Longrightarrow> connected_count s1 = connected_count s \<Longrightarrow> nextHandle s \<le> nextHandle s1 \<Longrightarrow>
   may_spool s1 s2 \<Longrightarrow> may_spool s s2"
  by (auto simp add: may_spool_def)

lemma may_spool_after:
  "may_spool s s1 \<Longrightarrow> queue s2 = queue s1 \<Longrightarrow> connected_count s2 = connected_count s1 \<Longrightarrow>
   nextHandle s2 = nextHandle s1 \<Longrightarrow> may_spool s s2"
  by (auto simp add: may_spool_def)

lemma call_may_spool: "may_spool s (snd (call m args opts own s))"
proof -
  let ?i = "randomId (random s (draws s))"
  let ?s2 = "s\<lparr>draws := Suc (draws s), nextHandle := Suc (nextHandle s),
       replies := (replies s)(?i \<mapsto> nextHandle s),
       calls := (calls s)(nextHandle s \<mapsto>
          \<lparr>c_id = ?i, c_owner = own, c_noReply = noReply opts,
           c_timeout = timeout opts, c_reply = None, c_stage = AwaitSend\<rparr>)\<rparr>"
  let ?r = "send \<lparr>ptype = ''method'', pmethod = m, parguments = args, pid = ?i\<rparr> opts ?s2"
  have a: "may_spool s (snd ?r)"
    by (rule may_spool_before [OF _ _ _ send_may_spool]) simp_all
  have b: "call m args opts own s =
     (case ?r of
        (None, s3) \<Rightarrow> (None, s3)
      | (Some (p, True), s3) \<Rightarrow> (Some (nextHandle s), enqueue (SendThen (nextHandle s)) s3)
      | (Some (p, False), s3) \<Rightarrow> (Some (nextHandle s), s3\<lparr>sendWaiter := (sendWaiter s3)(p \<mapsto> nextHandle s)\<rparr>))"
    by (simp add: call_def mathRandom_def newPromise_def Let_def split: prod.splits option.splits bool.splits)
  show ?thesis
    unfolding b
    by (cases ?r rule: prod.exhaust; cases "fst ?r"; cases "snd (the (fst ?r))")
       (use a in \<open>auto intro: may_spool_after\<close>)
qed

lemma auth_may_spool: "may_spool s (snd (auth channelId userId authKey s))"
proof (cases "isConnected s")
  case True
  let ?s1 = "s\<lparr>authPacket := Some (channelId, userId, authKey)\<rparr>"
  have "may_spool ?s1 (snd (auth channelId userId authKey s))"
    using True by (simp add: auth_def Let_def isConnected_def call_may_spool)
  then show ?thesis by (simp add: may_spool_def)
next
  case False
  then show ?thesis
    by (simp add: auth_def Let_def isConnected_def may_spool_def newPromise_def)
qed

lemma thrownOpt_may_spool: "may_spool s (snd r) \<Longrightarrow> may_spool s (thrownOpt r)"
  by (simp add: thrownOpt_def may_spool_def split: option.splits)

lemma step_spool:
  "may_spool s (step e s) \<or> quiet_or_drained s (step e s)
   \<or> relays ''connected'' e \<and> queue (step e s) = queue s \<and> nextHandle s \<le> nextHandle (step e s)"
proof (cases e)
  case (Send d opts)
  then show ?thesis by (simp add: thrownOpt_may_spool send_may_spool)
next
  case (Call m args opts)
  then show ?thesis by (simp add: thrownOpt_may_spool call_may_spool)
next
  case (Auth channelId userId authKey)
  then show ?thesis by (simp add: thrownOpt_may_spool auth_may_spool)
next
  case (ParsePacket fr)
  show ?thesis
  proof (cases "relays ''connected'' (ParsePacket fr)")
    case True
    then show ?thesis using parsePacket_relayed [OF True, of s]
      by (simp add: ParsePacket thrown_def split: option.splits)
  next
    case False
    then show ?thesis by (simp add: ParsePacket thrown_quiet parsePacket_quiet)
  qed
next
  case (WsMessage ws fr)
  show ?thesis
  proof (cases "sameSocket ws s")
    case same: True
    show ?thesis
    proof (cases "relays ''connected'' (ParsePacket fr)")
      case True
      then have "relays ''connected'' (WsMessage ws fr)"
        by (cases fr; cases "case fr of Frame b q \<Rightarrow> q") auto
      then show ?thesis using parsePacket_relayed [OF True, of "resetPingTimeout s"] same
        by (simp add: WsMessage wsMessage_def thrown_def split: option.splits)
    next
      case False
      have "quiet_or_drained s (resetPingTimeout s)" by (rule quiet_same) simp_all
      from quiet_trans [OF this parsePacket_quiet [OF False]]
      have "quiet_or_drained s (snd (wsMessage ws fr s))" using same by (simp add: wsMessage_def)
      then show ?thesis by (simp add: WsMessage thrown_quiet)
    qed
  next
    case False
    then show ?thesis by (simp add: WsMessage wsMessage_def thrown_def)
  qed
next
  case Microtask
  then show ?thesis by (simp add: microtask_quiet)
next
  case (WsError ws er)
  have "quiet_or_drained s (snd (wsError ws er s))" by (rule quiet_same) simp_all
  then show ?thesis by (simp add: WsError thrown_quiet)
qed (simp_all add: quiet_same)


lemma spool_ok_relayed:
  "queue s' = queue s \<Longrightarrow> nextHandle s \<le> nextHandle s' \<Longrightarrow> spool_ok s \<Longrightarrow> spool_ok s'"
  by (fastforce simp add: spool_ok_def)

lemma set_update_cases:
  "e \<in> set (AList.update k v al) \<Longrightarrow> e = (k, v) \<or> e \<in> set al"
  by (induction al) (auto split: if_splits)

lemma spool_ok_quiet: "quiet_or_drained s s' \<Longrightarrow> spool_ok s \<Longrightarrow> spool_ok s'"
  by (fastforce simp add: quiet_or_drained_def spool_ok_def)

lemma spool_ok_may_spool:
  assumes "may_spool s s'" and "spool_ok s"
  shows "spool_ok s'"
proof (cases "queue s' = queue s")
  case True
  then show ?thesis using assms by (fastforce simp add: may_spool_def spool_ok_def)
next
  case False
  then obtain d p where q: "queue s' = AList.update (pmethod d) \<lparr>data = d, resolve = p\<rparr> (queue s)"
    and p: "p < nextHandle s'" and le: "nextHandle s \<le> nextHandle s'"
    using assms(1) by (auto simp add: may_spool_def)
  have "distinct (map fst (queue s'))"
    using assms(2) by (simp add: q spool_ok_def distinct_update)
  moreover have "pmethod (data (snd e)) = fst e \<and> resolve (snd e) < nextHandle s'"
    if "e \<in> set (queue s')" for e
  proof -
    from that have "e = (pmethod d, \<lparr>data = d, resolve = p\<rparr>) \<or> e \<in> set (queue s)"
      unfolding q by (rule set_update_cases)
    then show ?thesis using assms(2) p le by (fastforce simp add: spool_ok_def)
  qed
  ultimately show ?thesis by (simp add: spool_ok_def)
qed

lemma spool_ok_step: "spool_ok s \<Longrightarrow> spool_ok (step e s)"
  using step_spool [of s e] spool_ok_quiet spool_ok_may_spool spool_ok_relayed by blast

lemma run_snoc: "run (es @ [e]) s = step e (run es s)"
  by (simp add: run_def)

lemma spool_ok_reachable: "spool_ok (run es (ChatSocket eps cfg rng))"
proof (induction es rule: rev_induct)
  case Nil
  show ?case by (simp add: run_def spool_ok_def ChatSocket_def)
next
  case (snoc e es)
  then show ?case by (simp only: run_snoc spool_ok_step)
qed

lemma filter_update_key:
  "distinct (map fst al) \<Longrightarrow> filter (\<lambda>e. fst e = k) (AList.update k v al) = [(k, v)]"
proof (induction al)
  case Nil
  then show ?case by simp
next
  case (Cons a al)
  show ?case
  proof (cases "fst a = k")
    case True
    then have "k \<notin> fst ` set al" using Cons.prems by auto
    then have "filter (\<lambda>e. fst e = k) al = []" by (auto simp add: filter_empty_conv)
    then show ?thesis using True by simp
  next
    case False
    then show ?thesis using Cons by simp
  qed
qed

lemma sent_packets_append [simp]: "sent_packets (xs @ ys) = sent_packets xs @ sent_packets ys"
  by (induction xs rule: sent_packets.induct) simp_all

lemma resolved_handles_append [simp]: "resolved_handles (xs @ ys) = resolved_handles xs @ resolved_handles ys"
  by (induction xs rule: resolved_handles.induct) simp_all

lemma sent_packets_flush: "sent_packets (concat (map (flushActions ws) q)) = map (\<lambda>e. data (snd e)) q"
  by (induction q) (simp_all add: flushActions_def)

lemma resolved_handles_flush: "resolved_handles (concat (map (flushActions ws) q)) = map (\<lambda>e. resolve (snd e)) q"
  by (induction q) (simp_all add: flushActions_def)

lemma filter_method_by_key:
  "\<forall>e \<in> set q. pmethod (data (snd e)) = fst e \<Longrightarrow>
   filter (\<lambda>d. pmethod d = m) (map (\<lambda>e. data (snd e)) q) = map (\<lambda>e. data (snd e)) (filter (\<lambda>e. fst e = m) q)"
  by (induction q) auto

lemma filter_handles_old:
  "\<forall>e \<in> set al. resolve (snd e) < p \<Longrightarrow>
   filter (\<lambda>h. h = p \<or> h = Suc p) (map (\<lambda>e. resolve (snd e)) al) = []"
  by (induction al) auto

lemma filter_handles_update:
  assumes "\<forall>e \<in> set al. resolve (snd e) < p"
  shows "filter (\<lambda>h. h = p \<or> h = Suc p) (map (\<lambda>e. resolve (snd e)) (AList.update k \<lparr>data = d, resolve = Suc p\<rparr> al)) = [Suc p]"
  using assms by (induction al) (auto simp add: filter_handles_old)

text \<open>
  C5. In every state reached from a constructed socket the spool has at most one entry
  per key. Two sends of the same method (other than \<open>auth\<close>) while not connected and
  without \<open>force\<close> leave exactly one entry under that method: the second payload
  with the second promise. When the spool is flushed later on a transport, every entry
  yields one send of its payload and one resolution of its promise, in order; for the
  method in question exactly the second payload is sent, and of the two promises exactly
  the second is resolved.
\<close>

theorem spool_collapses_same_method:
  assumes "s = run es (ChatSocket eps cfg rng)"
    and "\<not> isConnected s" and "\<not> force o1" and "\<not> force o2"
    and "pmethod d1 = m" and "pmethod d2 = m" and "m \<noteq> ''auth''"
    and "queue s3 = queue (run [Send d1 o1, Send d2 o2] s)" and "socket s3 = Some ws"
  shows "distinct (map fst (queue s))
       \<and> fst (send d1 o1 s) = Some (nextHandle s, False)
       \<and> fst (send d2 o2 (snd (send d1 o1 s))) = Some (Suc (nextHandle s), False)
       \<and> distinct (map fst (queue (run [Send d1 o1, Send d2 o2] s)))
       \<and> filter (\<lambda>e. fst e = m) (queue (run [Send d1 o1, Send d2 o2] s)) =
           [(m, \<lparr>data = d2, resolve = Suc (nextHandle s)\<rparr>)]
       \<and> fst (sendPackets s3) = None
       \<and> queue (snd (sendPackets s3)) = []
       \<and> trace (snd (sendPackets s3)) =
           trace s3 @ concat (map (flushActions ws) (queue s3)) @ [Emit ''connected'' NoArgs]
       \<and> filter (\<lambda>d. pmethod d = m) (sent_packets (concat (map (flushActions ws) (queue s3)))) = [d2]
       \<and> filter (\<lambda>h. h = nextHandle s \<or> h = Suc (nextHandle s))
            (resolved_handles (concat (map (flushActions ws) (queue s3)))) = [Suc (nextHandle s)]"
proof -
  let ?h = "nextHandle s"
  let ?s2 = "run [Send d1 o1, Send d2 o2] s"
  have ok: "spool_ok s" unfolding assms(1) by (rule spool_ok_reachable)
  have ok2: "spool_ok ?s2"
    by (simp only: run_def fold_simps o_apply id_apply spool_ok_step ok)
  let ?s1 = "s\<lparr>nextHandle := Suc ?h,
        queue := AList.update m \<lparr>data = d1, resolve = ?h\<rparr> (queue s),
        trace := trace s @ [Emit ''spooled'' (Out d1)]\<rparr>"
  have a1: "send d1 o1 s = (Some (?h, False), ?s1)"
    using assms(2,3,5,7) by (simp add: send_spooled)
  have n1: "\<not> isConnected ?s1" using assms(2) by (simp add: isConnected_def)
  have a2: "send d2 o2 ?s1 =
      (Some (Suc ?h, False),
       ?s1\<lparr>nextHandle := Suc (Suc ?h),
          queue := AList.update m \<lparr>data = d2, resolve = Suc ?h\<rparr> (queue s),
          trace := trace s @ [Emit ''spooled'' (Out d1), Emit ''spooled'' (Out d2)]\<rparr>)"
    using assms(4,6,7) by (simp add: send_spooled [OF n1])
  have q2: "queue ?s2 = AList.update m \<lparr>data = d2, resolve = Suc ?h\<rparr> (queue s)"
    by (simp add: run_def a1 a2 thrownOpt_def)
  have d0: "distinct (map fst (queue s))" using ok by (simp add: spool_ok_def)
  have c1: "fst (send d1 o1 s) = Some (?h, False)" by (simp add: a1)
  have c2: "fst (send d2 o2 (snd (send d1 o1 s))) = Some (Suc ?h, False)" by (simp add: a1 a2)
  have c3: "distinct (map fst (queue ?s2))" using ok2 by (simp add: spool_ok_def)
  have c4: "filter (\<lambda>e. fst e = m) (queue ?s2) = [(m, \<lparr>data = d2, resolve = Suc ?h\<rparr>)]"
    unfolding q2 using d0 by (rule filter_update_key)
  have c5: "fst (sendPackets s3) = None" "queue (snd (sendPackets s3)) = []"
    "trace (snd (sendPackets s3)) =
           trace s3 @ concat (map (flushActions ws) (queue s3)) @ [Emit ''connected'' NoArgs]"
    by (simp_all add: sendPackets_with_transport [OF assms(9)])
  have keys: "\<forall>e \<in> set (queue ?s2). pmethod (data (snd e)) = fst e"
    using ok2 by (simp add: spool_ok_def)
  have "filter (\<lambda>d. pmethod d = m) (sent_packets (concat (map (flushActions ws) (queue ?s2)))) =
      map (\<lambda>e. data (snd e)) (filter (\<lambda>e. fst e = m) (queue ?s2))"
    unfolding sent_packets_flush using keys by (rule filter_method_by_key)
  then have c6: "filter (\<lambda>d. pmethod d = m) (sent_packets (concat (map (flushActions ws) (queue s3)))) = [d2]"
    by (simp add: c4 assms(8))
  have old: "\<forall>e \<in> set (queue s). resolve (snd e) < ?h" using ok by (simp add: spool_ok_def)
  have c7: "filter (\<lambda>h. h = ?h \<or> h = Suc ?h)
            (resolved_handles (concat (map (flushActions ws) (queue s3)))) = [Suc ?h]"
    unfolding resolved_handles_flush assms(8) q2 using old by (rule filter_handles_update)
  show ?thesis using d0 c1 c2 c3 c4 c5 c6 c7 by blast
qed

lemma spooled_twice_example_fields:
  "queue spooled_twice_example = [(''msg'', \<lparr>data = chat_msg ''two'' 2, resolve = 1\<rparr>)]"
  "socket spooled_twice_example = None" "nextHandle spooled_twice_example = 2"
  "state spooled_twice_example = Idle"
  "trace spooled_twice_example = [Emit ''spooled'' (Out (chat_msg ''one'' 1)), Emit ''spooled'' (Out (chat_msg ''two'' 2))]"
  by (simp_all add: spooled_twice_example_def idle_example_def chat_msg_def plain_def run_def thrownOpt_def
      send_def prim_defs ChatSocket_def Let_def)

theorem spool_collapses_same_method_witness:
  "idle_example = run [] (ChatSocket [''a''] [] (\<lambda>i. 0))
   \<and> \<not> isConnected idle_example \<and> \<not> force plain
   \<and> pmethod (chat_msg ''one'' 1) = ''msg'' \<and> pmethod (chat_msg ''two'' 2) = ''msg'' \<and> ''msg'' \<noteq> ''auth''
   \<and> queue (boot spooled_twice_example) = queue spooled_twice_example
   \<and> socket (boot spooled_twice_example) = Some 0
   \<and> queue spooled_twice_example = [(''msg'', \<lparr>data = chat_msg ''two'' 2, resolve = 1\<rparr>)]
   \<and> trace (snd (sendPackets (boot spooled_twice_example))) =
        trace (boot spooled_twice_example) @
          [SocketSend 0 (chat_msg ''two'' 2), Emit ''debug'' (Out (chat_msg ''two'' 2)), Resolved 1 None,
           Emit ''connected'' NoArgs]
   \<and> queue (snd (sendPackets (boot spooled_twice_example))) = []"
proof -
  have r: "idle_example = run [] (ChatSocket [''a''] [] (\<lambda>i. 0))"
    by (simp add: idle_example_def run_def)
  have n: "\<not> isConnected idle_example" by (simp add: idle_example_def ChatSocket_def isConnected_def)
  have f: "\<not> force plain" by (simp add: plain_def)
  have m1: "pmethod (chat_msg ''one'' 1) = ''msg''" and m2: "pmethod (chat_msg ''two'' 2) = ''msg''"
    by (simp_all add: chat_msg_def)
  have na: "''msg'' \<noteq> ''auth''" by simp
  have q: "queue (boot spooled_twice_example) =
      queue (run [Send (chat_msg ''one'' 1) plain, Send (chat_msg ''two'' 2) plain] idle_example)"
    unfolding spooled_twice_example_def by (rule boot_spool(1))
  have so: "socket (boot spooled_twice_example) = Some 0"
    by (simp add: boot_def getAddress_def prim_defs Let_def spooled_twice_example_def idle_example_def
        run_def thrownOpt_def send_def ChatSocket_def chat_msg_def plain_def)
  have qq: "queue (boot spooled_twice_example) = queue spooled_twice_example" by simp
  note t = spool_collapses_same_method [OF r n f f m1 m2 na q so]
  have a: "trace (snd (sendPackets (boot spooled_twice_example))) =
     trace (boot spooled_twice_example) @ concat (map (flushActions 0) (queue (boot spooled_twice_example)))
       @ [Emit ''connected'' NoArgs]"
    using t by blast
  have b: "queue (snd (sendPackets (boot spooled_twice_example))) = []" using t by blast
  show ?thesis using r n f m1 m2 so b
    by (simp add: a spooled_twice_example_fields flushActions_def)
qed

subsection \<open>Calls that time out\<close>

















subsection \<open>Re-authentication and the flush\<close>

lemma authPacket_call [simp]: "authPacket (snd (call m args opts own s)) = authPacket s"
  by (simp add: call_def send_def prim_defs Let_def case_prod_beta split: option.splits bool.splits)





















subsection \<open>The handle of \<open>auth\<close> on a socket that is not connected\<close>

lemma silent_Nil [simp]: "silent w xs xs []"
  by (simp add: silent_def)


lemma keeps_refl [simp]: "keeps w s s"
  by (simp add: keeps_def)













































end
